theory Spec2Isabelle
  imports
    Main
    "HOL-Library.Char_ord"
    "HOL-Library.List_Lexorder"
    "HOL-Library.Multiset"
    "HOL-Library.Word"
begin

section \<open>Data model of the planner\<close>

text \<open>
  The planner of \<^verbatim>\<open>src/optimizer/planner.cpp\<close> works on column references,
  conditions and a polymorphic plan tree. The structs are records, the enums and the
  class hierarchy of plan nodes are datatypes. A null \<^verbatim>\<open>std::shared_ptr<Plan>\<close> is the
  constructor \<open>NullPlan\<close>.

  Modelled from the spec: the types \<^verbatim>\<open>TabCol\<close>, \<^verbatim>\<open>CompOp\<close>, \<^verbatim>\<open>Value\<close>,
  \<^verbatim>\<open>Condition\<close>, \<^verbatim>\<open>Query\<close> and the plan classes are declared in headers that are not
  among the sources. Their fields here are the ones the planner code reads and writes,
  with the names it uses; a condition has both \<^verbatim>\<open>rhs_col\<close> and \<^verbatim>\<open>rhs_val\<close>, as the
  code reads \<^verbatim>\<open>rhs_col\<close> without testing \<^verbatim>\<open>is_rhs_val\<close> first. The payload of a
  value is never inspected by the planner.
\<close>

record TabCol =
  tab_name :: string
  col_name :: string

datatype CompOp = OP_EQ | OP_NE | OP_LT | OP_GT | OP_LE | OP_GE

datatype Value = IntValue "64 word" | FloatValue "64 word" | StringValue string | BoolValue bool

record Condition =
  lhs_col :: TabCol
  op :: CompOp
  is_rhs_val :: bool
  rhs_col :: TabCol
  rhs_val :: Value

datatype PlanTag = T_SeqScan | T_IndexScan | T_NestLoop | T_SortMerge

text \<open>
  Modelled from the spec: the fields of \<^verbatim>\<open>ScanPlan\<close> are the ones the planner reads
  and writes (\<^verbatim>\<open>tab_name_\<close>, \<^verbatim>\<open>conds_\<close>, \<^verbatim>\<open>fed_conds_\<close>) and the ones it passes to
  the constructor (the tag and the index column names); the field names carry the
  prefix \<open>scan\<close> in place of the trailing underscore.
\<close>

record ScanNode =
  tag :: PlanTag
  scan_tab_name :: string
  scan_conds :: "Condition list"
  scan_fed_conds :: "Condition list"
  scan_index_col_names :: "string list"

datatype Plan =
    NullPlan
  | ScanPlan ScanNode
  | JoinPlan PlanTag Plan Plan "Condition list"
  | FilterPlan Plan "Condition list"
  | ProjectionPlan Plan "TabCol list"
  | SortPlan Plan TabCol bool

datatype error =
    RMDBError string
  | InternalError string
  | TableNotFoundError string
  | RecordNotFoundError
  | OutOfRange

abbreviation NoJoinExecutorSelected :: error where
  "NoJoinExecutorSelected \<equiv> RMDBError ''No join executor selected!''"

text \<open>
  Modelled from the spec: the constructor of \<^verbatim>\<open>ScanPlan\<close> is not in the sources; the
  scan node stores \<open>conds\<close> and \<open>fed_conds\<close> as identical copies of the conditions
  it is given.
\<close>

definition make_ScanPlan :: "PlanTag \<Rightarrow> string \<Rightarrow> Condition list \<Rightarrow> string list \<Rightarrow> ScanNode" where
  "make_ScanPlan t tab conds index_col_names =
     \<lparr>tag = t, scan_tab_name = tab, scan_conds = conds, scan_fed_conds = conds,
      scan_index_col_names = index_col_names\<rparr>"

subsection \<open>Catalog\<close>

text \<open>
  The catalog (\<^verbatim>\<open>SmManager\<close>) is an external collaborator. Of a table's metadata the
  planner uses the column list and the index test \<^verbatim>\<open>is_index\<close>, which is taken as a
  parameter. \<^verbatim>\<open>get_table\<close> throws for an unknown table: \<open>None\<close> here. Of an open
  file the planner reads the header, whose accessor sits inside a try block: \<open>Inl\<close>
  is the accessor throwing.
\<close>

record ColMeta =
  col_tab_name :: string
  name :: string

record TabMeta =
  tab_cols :: "ColMeta list"
  is_index :: "string list \<Rightarrow> bool"

record RmFileHdr =
  num_pages :: nat
  num_records_per_page :: nat

record SmManager =
  get_table :: "string \<Rightarrow> TabMeta option"
  fhs :: "string \<Rightarrow> (error + RmFileHdr) option"

section \<open>Comparison operators under a swap of sides\<close>

text \<open>The table \<^verbatim>\<open>swap_op\<close> that both \<^verbatim>\<open>push_conds\<close> and \<^verbatim>\<open>make_one_rel\<close> build.\<close>

fun swap_op :: "CompOp \<Rightarrow> CompOp" where
  "swap_op OP_EQ = OP_EQ"
| "swap_op OP_NE = OP_NE"
| "swap_op OP_LT = OP_GT"
| "swap_op OP_GT = OP_LT"
| "swap_op OP_LE = OP_GE"
| "swap_op OP_GE = OP_LE"

section \<open>Index matching\<close>

text \<open>
  \<^verbatim>\<open>get_index_cols\<close> fills the reference parameter \<^verbatim>\<open>index_col_names\<close> and returns a
  flag; the model returns both. The \<^verbatim>\<open>std::set\<close> of column names iterates in
  ascending order without duplicates.
\<close>

definition indexable_op :: "CompOp \<Rightarrow> bool" where
  "indexable_op o' \<longleftrightarrow>
     o' = OP_EQ \<or> o' = OP_LT \<or> o' = OP_GT \<or> o' = OP_LE \<or> o' = OP_GE \<or> o' = OP_NE"

definition indexed_columns :: "string \<Rightarrow> Condition list \<Rightarrow> string list" where
  "indexed_columns tab curr_conds =
     sort (remdups (map (\<lambda>c. col_name (lhs_col c))
       (filter (\<lambda>c. is_rhs_val c \<and> tab_name (lhs_col c) = tab \<and> indexable_op (op c))
          curr_conds)))"

definition get_index_cols ::
  "SmManager \<Rightarrow> string \<Rightarrow> Condition list \<Rightarrow> error + (bool \<times> string list)" where
  "get_index_cols sm tab curr_conds =
     (let index_col_names = indexed_columns tab curr_conds in
      case get_table sm tab of
        None \<Rightarrow> Inl (TableNotFoundError tab)
      | Some tm \<Rightarrow>
          if index_col_names \<noteq> [] then
            (case find (\<lambda>col. is_index tm [col]) index_col_names of
               Some col \<Rightarrow> Inr (True, [col])
             | None \<Rightarrow>
                 if is_index tm index_col_names then Inr (True, index_col_names)
                 else Inr (False, index_col_names))
          else Inr (False, index_col_names))"

section \<open>The query\<close>

text \<open>
  Of the parsed statement the planner reads the ORDER BY part only: whether there is
  one, its column name and its direction (the parser produces \<open>OrderBy_DEFAULT\<close>,
  \<open>OrderBy_ASC\<close> or \<open>OrderBy_DESC\<close>).
\<close>

datatype OrderByDir = OrderBy_DEFAULT | OrderBy_ASC | OrderBy_DESC

record SelectStmt =
  has_sort :: bool
  order_col_name :: string
  orderby_dir :: OrderByDir

record Query =
  parse :: SelectStmt
  tables :: "string list"
  cols :: "TabCol list"
  conds :: "Condition list"
  is_select_star :: bool

section \<open>Predicate classifier\<close>

definition solved_by :: "string \<Rightarrow> Condition \<Rightarrow> bool" where
  "solved_by tab_names c \<longleftrightarrow>
     (tab_names = tab_name (lhs_col c) \<and> is_rhs_val c) \<or>
     tab_name (lhs_col c) = tab_name (rhs_col c)"

text \<open>
  \<^verbatim>\<open>pop_conds\<close> erases the solved conditions from the list it is given by reference
  and returns them: the result is the pair of the solved conditions and the list that
  is left, both in their original order.
\<close>

fun pop_conds :: "Condition list \<Rightarrow> string \<Rightarrow> Condition list \<times> Condition list" where
  "pop_conds [] tab_names = ([], [])"
| "pop_conds (c # cs) tab_names =
     (let (solved_conds, rest) = pop_conds cs tab_names in
      if solved_by tab_names c then (c # solved_conds, rest) else (solved_conds, c # rest))"

section \<open>Pushing a condition into the join tree\<close>

text \<open>
  \<^verbatim>\<open>std::swap(cond->lhs_col, cond->rhs_col); cond->op = swap_op.at(cond->op)\<close>, the
  statement pair that occurs in \<^verbatim>\<open>push_conds\<close> and in \<^verbatim>\<open>make_one_rel\<close>.
\<close>

definition swap_sides :: "Condition \<Rightarrow> Condition" where
  "swap_sides c = c\<lparr>lhs_col := rhs_col c, rhs_col := lhs_col c, op := swap_op (op c)\<rparr>"

text \<open>
  \<^verbatim>\<open>push_conds\<close> returns a code (0 to 3) and appends the condition to a join node of
  the tree it walks; the model returns the code and the tree. Every node of the tree
  has one owner, so the update in place is the rebuilt tree.
\<close>

fun push_conds :: "Condition \<Rightarrow> Plan \<Rightarrow> nat \<times> Plan" where
  "push_conds cond (ScanPlan x) =
     (if scan_tab_name x = tab_name (lhs_col cond) then (1, ScanPlan x)
      else if scan_tab_name x = tab_name (rhs_col cond) then (2, ScanPlan x)
      else (0, ScanPlan x))"
| "push_conds cond (JoinPlan t left right cs) =
     (let (left_res, left') = push_conds cond left in
      if left_res = 3 then (3, JoinPlan t left' right cs)
      else
        let (right_res, right') = push_conds cond right in
        if right_res = 3 then (3, JoinPlan t left' right' cs)
        else if left_res = 0 \<or> right_res = 0 then (left_res + right_res, JoinPlan t left' right' cs)
        else
          let cond' = (if left_res = 2 then swap_sides cond else cond) in
          (3, JoinPlan t left' right' (cs @ [cond'])))"
| "push_conds cond p = (0, p)"

section \<open>Building the join tree\<close>

text \<open>
  \<^verbatim>\<open>pop_scan\<close> looks for the first scan plan of the given table, marks it used in
  \<^verbatim>\<open>scantbl\<close>, appends the table to \<^verbatim>\<open>joined_tables\<close> and returns the plan, or
  the null pointer when no plan has that table. The vector it searches holds scan
  plans only.
\<close>

fun scan_index :: "string \<Rightarrow> ScanNode list \<Rightarrow> nat \<Rightarrow> nat option" where
  "scan_index table [] i = None"
| "scan_index table (x # xs) i =
     (if scan_tab_name x = table then Some i else scan_index table xs (Suc i))"

record JoinState =
  scantbl :: "int list"
  joined_tables :: "string list"

definition pop_scan :: "JoinState \<Rightarrow> string \<Rightarrow> ScanNode list \<Rightarrow> Plan \<times> JoinState" where
  "pop_scan st table plans =
     (case scan_index table plans 0 of
        None \<Rightarrow> (NullPlan, st)
      | Some i \<Rightarrow>
          (ScanPlan (plans ! i),
           st\<lparr>scantbl := (scantbl st)[i := 1],
              joined_tables := joined_tables st @ [scan_tab_name (plans ! i)]\<rparr>))"

text \<open>The first phase of \<^verbatim>\<open>make_one_rel\<close>: one scan plan per table, in table order.\<close>

fun table_scans ::
  "SmManager \<Rightarrow> string list \<Rightarrow> Condition list \<Rightarrow> error + (ScanNode list \<times> Condition list)" where
  "table_scans sm [] cs = Inr ([], cs)"
| "table_scans sm (t # ts) cs =
     (let (curr_conds, rest) = pop_conds cs t in
      case get_index_cols sm t curr_conds of
        Inl e \<Rightarrow> Inl e
      | Inr (index_exist, index_col_names) \<Rightarrow>
          let scan = (if index_exist = False then make_ScanPlan T_SeqScan t curr_conds []
                      else make_ScanPlan T_IndexScan t curr_conds index_col_names) in
          (case table_scans sm ts rest of
             Inl e \<Rightarrow> Inl e
           | Inr (scans, rest') \<Rightarrow> Inr (scan # scans, rest')))"

text \<open>
  The seed step: the first remaining condition joins the scans of its two tables, with
  the algorithm the two configuration flags select.
\<close>

definition seed_join ::
  "bool \<Rightarrow> bool \<Rightarrow> ScanNode list \<Rightarrow> Condition \<Rightarrow> JoinState \<Rightarrow> error + (Plan \<times> JoinState)" where
  "seed_join enable_nestedloop_join enable_sortmerge_join scans it st =
     (let (left, st1) = pop_scan st (tab_name (lhs_col it)) scans;
          (right, st2) = pop_scan st1 (tab_name (rhs_col it)) scans in
      if enable_nestedloop_join \<and> enable_sortmerge_join
        then Inr (JoinPlan T_NestLoop left right [it], st2)
      else if enable_nestedloop_join then Inr (JoinPlan T_NestLoop left right [it], st2)
      else if enable_sortmerge_join then Inr (JoinPlan T_SortMerge left right [it], st2)
      else Inl NoJoinExecutorSelected)"

text \<open>One round of the extension loop, for the condition \<open>it\<close>.\<close>

definition extend_join ::
  "ScanNode list \<Rightarrow> Condition \<Rightarrow> Plan \<times> JoinState \<Rightarrow> Plan \<times> JoinState" where
  "extend_join scans it acc =
     (let (table_join_executors, st) = acc;
          (left_need, st1) =
            (if tab_name (lhs_col it) \<notin> set (joined_tables st)
             then pop_scan st (tab_name (lhs_col it)) scans else (NullPlan, st));
          (right_need, st2, isneedreverse) =
            (if tab_name (rhs_col it) \<notin> set (joined_tables st1)
             then (let (p, s) = pop_scan st1 (tab_name (rhs_col it)) scans in (p, s, True))
             else (NullPlan, st1, False)) in
      if left_need \<noteq> NullPlan \<and> right_need \<noteq> NullPlan then
        (JoinPlan T_NestLoop (JoinPlan T_NestLoop left_need right_need [it])
           table_join_executors [], st2)
      else if left_need \<noteq> NullPlan \<or> right_need \<noteq> NullPlan then
        (let it' = (if isneedreverse then swap_sides it else it);
             left_need' = (if isneedreverse then right_need else left_need) in
         (JoinPlan T_NestLoop left_need' table_join_executors [it'], st2))
      else (snd (push_conds it table_join_executors), st2))"

text \<open>
  The second phase: seed and extension loop over the remaining conditions, or the first
  scan when there is none. The vector \<^verbatim>\<open>joined_tables\<close> starts with one empty string
  per table. Without conditions and without tables the code reads the first element of
  an empty vector: \<open>OutOfRange\<close>.
\<close>

definition join_tree ::
  "bool \<Rightarrow> bool \<Rightarrow> ScanNode list \<Rightarrow> Condition list \<Rightarrow> error + (Plan \<times> JoinState)" where
  "join_tree enable_nestedloop_join enable_sortmerge_join scans cs =
     (let n = length scans; st0 = \<lparr>scantbl = replicate n (- 1), joined_tables = []\<rparr> in
      case cs of
        it # rest \<Rightarrow>
          (case seed_join enable_nestedloop_join enable_sortmerge_join scans it
                  (st0\<lparr>joined_tables := replicate n []\<rparr>) of
             Inl e \<Rightarrow> Inl e
           | Inr acc \<Rightarrow> Inr (foldl (\<lambda>a c. extend_join scans c a) acc rest))
      | [] \<Rightarrow>
          (case scans of
             [] \<Rightarrow> Inl OutOfRange
           | s # _ \<Rightarrow> Inr (ScanPlan s, st0\<lparr>scantbl := (scantbl st0)[0 := 1]\<rparr>)))"

text \<open>The third phase: every scan still unused goes on top, as the left child.\<close>

definition cartesian_attach :: "ScanNode list \<Rightarrow> Plan \<times> JoinState \<Rightarrow> Plan" where
  "cartesian_attach scans acc =
     foldl (\<lambda>table_join_executors i.
              if scantbl (snd acc) ! i = - 1
              then JoinPlan T_NestLoop (ScanPlan (scans ! i)) table_join_executors []
              else table_join_executors)
       (fst acc) [0..<length scans]"

text \<open>
  \<^verbatim>\<open>make_one_rel\<close> also changes the query: \<^verbatim>\<open>pop_conds\<close> erases from
  \<^verbatim>\<open>query->conds\<close>, and with several tables the rest is moved out, which leaves the
  vector empty. The result is the plan and the condition list left in the query.
\<close>

definition make_one_rel ::
  "SmManager \<Rightarrow> bool \<Rightarrow> bool \<Rightarrow> Query \<Rightarrow> error + (Plan \<times> Query)" where
  "make_one_rel sm enable_nestedloop_join enable_sortmerge_join query =
     (case table_scans sm (tables query) (conds query) of
        Inl e \<Rightarrow> Inl e
      | Inr (table_scan_executors, rest) \<Rightarrow>
          if length (tables query) = 1
          then Inr (ScanPlan (hd table_scan_executors), query\<lparr>conds := rest\<rparr>)
          else
            (case join_tree enable_nestedloop_join enable_sortmerge_join
                    table_scan_executors rest of
               Inl e \<Rightarrow> Inl e
             | Inr acc \<Rightarrow>
                 Inr (cartesian_attach table_scan_executors acc, query\<lparr>conds := []\<rparr>)))"

section \<open>Predicate pushdown on the plan tree\<close>

fun extract_conditions_from_plan :: "Plan \<Rightarrow> Condition list" where
  "extract_conditions_from_plan (ScanPlan scan_plan) = scan_conds scan_plan"
| "extract_conditions_from_plan (JoinPlan t left right cs) =
     extract_conditions_from_plan left @ extract_conditions_from_plan right"
| "extract_conditions_from_plan p = []"

fun collect_table_names_from_plan :: "Plan \<Rightarrow> string set" where
  "collect_table_names_from_plan (ScanPlan scan_plan) = {scan_tab_name scan_plan}"
| "collect_table_names_from_plan (JoinPlan t left right cs) =
     collect_table_names_from_plan left \<union> collect_table_names_from_plan right"
| "collect_table_names_from_plan (FilterPlan subplan cs) = collect_table_names_from_plan subplan"
| "collect_table_names_from_plan (ProjectionPlan subplan cs) =
     collect_table_names_from_plan subplan"
| "collect_table_names_from_plan p = {}"

text \<open>
  \<^verbatim>\<open>clear_conditions_from_plan\<close> empties \<^verbatim>\<open>conds_\<close> of the scans it reaches through
  join nodes, and nothing else.
\<close>

fun clear_conditions_from_plan :: "Plan \<Rightarrow> Plan" where
  "clear_conditions_from_plan (ScanPlan scan_plan) = ScanPlan (scan_plan\<lparr>scan_conds := []\<rparr>)"
| "clear_conditions_from_plan (JoinPlan t left right cs) =
     JoinPlan t (clear_conditions_from_plan left) (clear_conditions_from_plan right) cs"
| "clear_conditions_from_plan p = p"

fun push_filters_down :: "Plan \<Rightarrow> Plan" where
  "push_filters_down (JoinPlan t left right cs) =
     (let left1 = push_filters_down left;
          right1 = push_filters_down right;
          all_conditions = extract_conditions_from_plan (JoinPlan t left1 right1 cs);
          left_tables = collect_table_names_from_plan left1;
          right_tables = collect_table_names_from_plan right1;
          left_conditions =
            filter (\<lambda>cond. is_rhs_val cond \<and> tab_name (lhs_col cond) \<in> left_tables)
              all_conditions;
          right_conditions =
            filter (\<lambda>cond. is_rhs_val cond \<and> tab_name (lhs_col cond) \<notin> left_tables \<and>
                      tab_name (lhs_col cond) \<in> right_tables)
              all_conditions;
          left2 = (if left_conditions \<noteq> [] then FilterPlan left1 left_conditions else left1);
          right2 = (if right_conditions \<noteq> [] then FilterPlan right1 right_conditions else right1)
      in clear_conditions_from_plan (JoinPlan t left2 right2 cs))"
| "push_filters_down (ScanPlan scan_plan) =
     (let table_conditions =
            filter (\<lambda>cond. is_rhs_val cond \<and> tab_name (lhs_col cond) = scan_tab_name scan_plan)
              (scan_conds scan_plan)
      in if table_conditions \<noteq> []
         then FilterPlan (ScanPlan (scan_plan\<lparr>scan_conds := [], scan_fed_conds := []\<rparr>))
                table_conditions
         else ScanPlan scan_plan)"
| "push_filters_down p = p"

definition apply_predicate_pushdown :: "Plan \<Rightarrow> Plan" where
  "apply_predicate_pushdown plan = (if plan = NullPlan then plan else push_filters_down plan)"

section \<open>Projection pushdown on the plan tree\<close>

definition qualified_name :: "TabCol \<Rightarrow> string" where
  "qualified_name col = tab_name col @ ''.'' @ col_name col"

definition condition_columns :: "Condition \<Rightarrow> string list" where
  "condition_columns cond =
     qualified_name (lhs_col cond) # (if \<not> is_rhs_val cond then [qualified_name (rhs_col cond)] else [])"

fun collect_join_columns_from_plan :: "Plan \<Rightarrow> string list" where
  "collect_join_columns_from_plan (JoinPlan t left right cs) =
     concat (map condition_columns cs) @ collect_join_columns_from_plan left @
     collect_join_columns_from_plan right"
| "collect_join_columns_from_plan (ProjectionPlan subplan cs) =
     collect_join_columns_from_plan subplan"
| "collect_join_columns_from_plan (FilterPlan subplan cs) = collect_join_columns_from_plan subplan"
| "collect_join_columns_from_plan p = []"

text \<open>
  A needed column is the string \<^verbatim>\<open>table.column\<close>; it is split at its first dot
  (\<^verbatim>\<open>find('.')\<close>, \<^verbatim>\<open>substr\<close>).
\<close>

definition split_at_dot :: "string \<Rightarrow> (string \<times> string) option" where
  "split_at_dot needed_col =
     (if CHR ''.'' \<in> set needed_col
      then Some (takeWhile (\<lambda>ch. ch \<noteq> CHR ''.'') needed_col,
                 tl (dropWhile (\<lambda>ch. ch \<noteq> CHR ''.'') needed_col))
      else None)"

definition table_needed_cols :: "string \<Rightarrow> string list \<Rightarrow> TabCol list" where
  "table_needed_cols table_name needed_columns =
     concat (map (\<lambda>needed_col.
       case split_at_dot needed_col of
         None \<Rightarrow> []
       | Some (tab, col) \<Rightarrow>
           if tab = table_name then [\<lparr>tab_name = tab, col_name = col\<rparr>] else [])
       needed_columns)"

fun insert_project_nodes :: "SmManager \<Rightarrow> Plan \<Rightarrow> string list \<Rightarrow> Plan" where
  "insert_project_nodes sm (JoinPlan t left right cs) needed_columns =
     JoinPlan t (insert_project_nodes sm left needed_columns)
       (insert_project_nodes sm right needed_columns) cs"
| "insert_project_nodes sm (FilterPlan subplan cs) needed_columns =
     FilterPlan (insert_project_nodes sm subplan needed_columns) cs"
| "insert_project_nodes sm (ScanPlan scan_plan) needed_columns =
     (let needed = table_needed_cols (scan_tab_name scan_plan) needed_columns in
      if needed \<noteq> [] then
        (case get_table sm (scan_tab_name scan_plan) of
           Some tm \<Rightarrow>
             if length needed = length (tab_cols tm) then ScanPlan scan_plan
             else ProjectionPlan (ScanPlan scan_plan) needed
         | None \<Rightarrow> ProjectionPlan (ScanPlan scan_plan) needed)
      else ScanPlan scan_plan)"
| "insert_project_nodes sm p needed_columns = p"

text \<open>The \<^verbatim>\<open>std::set\<close> of needed columns is the sorted list without duplicates.\<close>

definition apply_projection_pushdown :: "SmManager \<Rightarrow> Plan \<Rightarrow> Query \<Rightarrow> Plan" where
  "apply_projection_pushdown sm plan query =
     (if plan = NullPlan then plan
      else
        let needed_columns =
              sort (remdups (map qualified_name (cols query) @
                             concat (map condition_columns (conds query)) @
                             collect_join_columns_from_plan plan));
            plan1 = (if length (tables query) > 1 \<and> \<not> is_select_star query \<and>
                        length (cols query) > 0
                     then insert_project_nodes sm plan needed_columns else plan)
        in ProjectionPlan plan1 (cols query))"

section \<open>Sort plan\<close>

text \<open>
  The column metadata of all tables of the query are searched for the ORDER BY column;
  \<^verbatim>\<open>get_table\<close> throws for an unknown table. When no column has the name, the sort
  column stays the default \<^verbatim>\<open>TabCol\<close>, whose names are empty.
\<close>

fun all_table_cols :: "SmManager \<Rightarrow> string list \<Rightarrow> error + ColMeta list" where
  "all_table_cols sm [] = Inr []"
| "all_table_cols sm (t # ts) =
     (case get_table sm t of
        None \<Rightarrow> Inl (TableNotFoundError t)
      | Some tm \<Rightarrow>
          (case all_table_cols sm ts of
             Inl e \<Rightarrow> Inl e
           | Inr all_cols \<Rightarrow> Inr (tab_cols tm @ all_cols)))"

definition generate_sort_plan :: "SmManager \<Rightarrow> Query \<Rightarrow> Plan \<Rightarrow> error + Plan" where
  "generate_sort_plan sm query plan =
     (let x = parse query in
      if \<not> has_sort x then Inr plan
      else
        (case all_table_cols sm (tables query) of
           Inl e \<Rightarrow> Inl e
         | Inr all_cols \<Rightarrow>
             let sel_col =
                   (case find (\<lambda>col. name col = order_col_name x) all_cols of
                      Some col \<Rightarrow> \<lparr>tab_name = col_tab_name col, col_name = name col\<rparr>
                    | None \<Rightarrow> \<lparr>tab_name = [], col_name = []\<rparr>)
             in Inr (SortPlan plan sel_col (orderby_dir x = OrderBy_DESC))))"

section \<open>Join order\<close>

subsection \<open>Cardinality estimate\<close>

text \<open>
  The estimate multiplies a \<^verbatim>\<open>size_t\<close> by the \<^verbatim>\<open>double\<close> constant \<^verbatim>\<open>0.7\<close> and
  converts the product back to \<^verbatim>\<open>size_t\<close>. The arithmetic of IEEE 754 binary64 with
  rounding to nearest, ties to even, is written out on naturals: \<open>round53\<close> rounds
  to 53 significant bits, the constant is \<open>6305039478318694 / 2 ^ 53\<close>, and the
  conversion to \<^verbatim>\<open>size_t\<close> truncates.
\<close>

fun bit_length :: "nat \<Rightarrow> nat" where
  "bit_length n = (if n = 0 then 0 else Suc (bit_length (n div 2)))"

declare bit_length.simps [simp del]

definition round53 :: "nat \<Rightarrow> nat" where
  "round53 n =
     (let l = bit_length n in
      if l \<le> 53 then n
      else
        let s = l - 53; m = n div 2 ^ s; r = n mod 2 ^ s; half = 2 ^ (s - 1) in
        (if r > half \<or> (r = half \<and> odd m) then m + 1 else m) * 2 ^ s)"

definition times_0_7 :: "nat \<Rightarrow> nat" where
  "times_0_7 n = round53 (round53 n * 6305039478318694) div 2 ^ 53"

definition SIZE_MAX :: nat where
  "SIZE_MAX = 2 ^ 64 - 1"

definition estimate_table_cardinality :: "SmManager \<Rightarrow> string \<Rightarrow> nat" where
  "estimate_table_cardinality sm table_name =
     (case fhs sm table_name of
        None \<Rightarrow> 1000
      | Some (Inl e) \<Rightarrow> 1000
      | Some (Inr file_hdr) \<Rightarrow>
          let estimated_pages = (if num_pages file_hdr > 1 then num_pages file_hdr - 1 else 0);
              estimated_records =
                times_0_7 ((estimated_pages * num_records_per_page file_hdr) mod 2 ^ 64)
          in if estimated_records > 0 then estimated_records else 1)"

subsection \<open>Greedy order\<close>

text \<open>
  \<^verbatim>\<open>cardinality_map\<close> is filled by assignment in the order of the statistics, so the
  last entry of a name wins, and reading a missing name gives 0. \<^verbatim>\<open>join_graph\<close>
  maps a table to the set of tables it shares a condition with; a missing name reads
  as the empty set.
\<close>

definition cardinality_map :: "(string \<times> nat) list \<Rightarrow> string \<Rightarrow> nat" where
  "cardinality_map table_stats table =
     (case map_of (rev table_stats) table of Some c \<Rightarrow> c | None \<Rightarrow> 0)"

definition join_graph :: "Condition list \<Rightarrow> string \<Rightarrow> string set" where
  "join_graph conditions table =
     set (concat (map (\<lambda>cond.
       if is_rhs_val cond then []
       else (if tab_name (lhs_col cond) = table then [tab_name (rhs_col cond)] else []) @
            (if tab_name (rhs_col cond) = table then [tab_name (lhs_col cond)] else []))
       conditions))"

definition has_join_condition :: "Condition list \<Rightarrow> string set \<Rightarrow> string \<Rightarrow> bool" where
  "has_join_condition conditions used_tables table \<longleftrightarrow>
     (\<exists>used_table \<in> used_tables. used_table \<in> join_graph conditions table)"

text \<open>The body of the inner \<^verbatim>\<open>for\<close> loop over the statistics, on the pair of the
  best table so far and its cost.\<close>

definition best_step ::
  "(string \<times> nat) list \<Rightarrow> Condition list \<Rightarrow> string set \<Rightarrow>
   string \<times> nat \<Rightarrow> string \<times> nat \<Rightarrow> string \<times> nat" where
  "best_step table_stats conditions used_tables acc stat =
     (let table = fst stat in
      if table \<in> used_tables then acc
      else if \<not> has_join_condition conditions used_tables table \<and>
              (\<exists>other_stat \<in> set table_stats.
                  \<not> (fst other_stat \<in> used_tables \<or> fst other_stat = table) \<and>
                  has_join_condition conditions used_tables (fst other_stat))
      then acc
      else
        let cost = cardinality_map table_stats table in
        if cost < snd acc then (table, cost) else acc)"

text \<open>
  One round of the \<^verbatim>\<open>while\<close> loop, on the set of used tables and the result: the
  best table of the inner loop is appended or, when its name is empty, the first unused
  table of the sorted statistics.
\<close>

definition greedy_round ::
  "(string \<times> nat) list \<Rightarrow> Condition list \<Rightarrow> (string \<times> nat) list \<Rightarrow>
   string set \<times> string list \<Rightarrow> string set \<times> string list" where
  "greedy_round table_stats conditions sorted_stats st =
     (let used_tables = fst st; result = snd st;
          best_table =
            fst (foldl (best_step table_stats conditions used_tables) ([], SIZE_MAX)
                   table_stats)
      in if best_table \<noteq> [] then (insert best_table used_tables, result @ [best_table])
         else
           (case find (\<lambda>stat. fst stat \<notin> used_tables) sorted_stats of
              Some stat \<Rightarrow> (insert (fst stat) used_tables, result @ [fst stat])
            | None \<Rightarrow> (used_tables, result)))"

text \<open>
  The loop runs as long as fewer names are used than there are statistics; a round
  that finds no table leaves the state as it is and the loop goes on. The result
  \<open>None\<close> is the loop not returning.
\<close>

partial_function (option) greedy_loop ::
  "(string \<times> nat) list \<Rightarrow> Condition list \<Rightarrow> (string \<times> nat) list \<Rightarrow>
   string set \<Rightarrow> string list \<Rightarrow> string list option" where
  "greedy_loop table_stats conditions sorted_stats used_tables result =
     (if card used_tables < length table_stats then
        (case greedy_round table_stats conditions sorted_stats (used_tables, result) of
           (used_tables', result') \<Rightarrow>
             greedy_loop table_stats conditions sorted_stats used_tables' result')
      else Some result)"

text \<open>
  \<^verbatim>\<open>std::sort\<close> with the comparison of the cardinalities is a library routine: it
  returns a rearrangement of the vector that is ascending in the cardinality, and the
  order it gives to entries of equal cardinality is not fixed by the language (the
  introsort of libstdc++, for one, keeps them in input order on vectors of at most 16
  entries only). The routine is the parameter \<open>std_sort\<close> of the planner functions
  that reach it, and \<open>sorts_by_cardinality\<close> is what the language promises of it.
\<close>

type_synonym std_sort = "(string \<times> nat) list \<Rightarrow> (string \<times> nat) list"

definition sorts_by_cardinality :: "std_sort \<Rightarrow> bool" where
  "sorts_by_cardinality std_sort \<longleftrightarrow>
     (\<forall>v. sorted (map snd (std_sort v)) \<and> mset (std_sort v) = mset v)"

definition greedy_join_order_optimization ::
  "std_sort \<Rightarrow> (string \<times> nat) list \<Rightarrow> Condition list \<Rightarrow> string list option" where
  "greedy_join_order_optimization std_sort table_stats conditions =
     (let sorted_stats = std_sort table_stats in
      if length table_stats \<le> 2 then Some (map fst sorted_stats)
      else
        greedy_loop table_stats conditions sorted_stats
          {fst (sorted_stats ! 0), fst (sorted_stats ! 1)}
          [fst (sorted_stats ! 0), fst (sorted_stats ! 1)])"

definition join_order_optimization :: "std_sort \<Rightarrow> SmManager \<Rightarrow> Query \<Rightarrow> Query option" where
  "join_order_optimization std_sort sm query =
     (if length (tables query) \<le> 2 then Some query
      else
        let table_stats =
              map (\<lambda>table_name. (table_name, estimate_table_cardinality sm table_name))
                (tables query)
        in case greedy_join_order_optimization std_sort table_stats (conds query) of
             None \<Rightarrow> None
           | Some optimized_tables \<Rightarrow> Some (query\<lparr>tables := optimized_tables\<rparr>))"

section \<open>The SELECT pipeline\<close>

text \<open>
  The logical passes \<^verbatim>\<open>predicate_pushdown\<close> and \<^verbatim>\<open>projection_pushdown\<close> return the
  query as it is, so the logical optimization of a SELECT is the join order alone.
\<close>

definition logical_optimization :: "std_sort \<Rightarrow> SmManager \<Rightarrow> Query \<Rightarrow> Query option" where
  "logical_optimization std_sort sm query = join_order_optimization std_sort sm query"

definition physical_optimization ::
  "SmManager \<Rightarrow> bool \<Rightarrow> bool \<Rightarrow> Query \<Rightarrow> error + Plan" where
  "physical_optimization sm enable_nestedloop_join enable_sortmerge_join query =
     (case make_one_rel sm enable_nestedloop_join enable_sortmerge_join query of
        Inl e \<Rightarrow> Inl e
      | Inr (plan, query1) \<Rightarrow>
          generate_sort_plan sm query1
            (apply_projection_pushdown sm (apply_predicate_pushdown plan) query1))"

definition generate_select_plan ::
  "std_sort \<Rightarrow> SmManager \<Rightarrow> bool \<Rightarrow> bool \<Rightarrow> Query \<Rightarrow> (error + Plan) option" where
  "generate_select_plan std_sort sm enable_nestedloop_join enable_sortmerge_join query =
     (case logical_optimization std_sort sm query of
        None \<Rightarrow> None
      | Some query1 \<Rightarrow>
          Some (physical_optimization sm enable_nestedloop_join enable_sortmerge_join query1))"

section \<open>Sequential scan executor\<close>

text \<open>
  The executor of \<^verbatim>\<open>src/execution/executor_seq_scan.h\<close>. The record file, its scan
  and the evaluation of conditions are external: the file is the list of its records
  with their ids in the order in which \<^verbatim>\<open>RmScan\<close> visits them, \<^verbatim>\<open>get_record\<close> looks
  an id up and throws for an id the file does not hold, and \<^verbatim>\<open>eval_conds\<close> is a
  parameter. The scan \<^verbatim>\<open>scan_\<close> is the list of the ids still ahead, the current one
  first; \<open>None\<close> is the null pointer.
\<close>

record Rid =
  page_no :: int
  slot_no :: int

type_synonym RmRecord = string

record SeqScanExecutor =
  fh :: "(Rid \<times> RmRecord) list"
  fed_conds :: "Condition list"
  rid :: Rid
  scan :: "Rid list option"

definition get_record :: "(Rid \<times> RmRecord) list \<Rightarrow> Rid \<Rightarrow> error + RmRecord" where
  "get_record file r =
     (case map_of file r of None \<Rightarrow> Inl RecordNotFoundError | Some rec \<Rightarrow> Inr rec)"

text \<open>
  The \<^verbatim>\<open>while (!scan_->is_end())\<close> loop that \<^verbatim>\<open>beginTuple\<close> and \<^verbatim>\<open>nextTuple\<close> share:
  it stops at the first record that satisfies \<^verbatim>\<open>fed_conds_\<close>.
\<close>

fun advance ::
  "(Condition list \<Rightarrow> RmRecord \<Rightarrow> bool) \<Rightarrow> SeqScanExecutor \<Rightarrow> Rid list \<Rightarrow>
   error + SeqScanExecutor" where
  "advance eval_conds ex [] = Inr (ex\<lparr>scan := Some []\<rparr>)"
| "advance eval_conds ex (r # rest) =
     (case get_record (fh ex) r of
        Inl e \<Rightarrow> Inl e
      | Inr rec \<Rightarrow>
          if eval_conds (fed_conds ex) rec then Inr (ex\<lparr>rid := r, scan := Some (r # rest)\<rparr>)
          else advance eval_conds (ex\<lparr>rid := r\<rparr>) rest)"

definition beginTuple ::
  "(Condition list \<Rightarrow> RmRecord \<Rightarrow> bool) \<Rightarrow> SeqScanExecutor \<Rightarrow> error + SeqScanExecutor" where
  "beginTuple eval_conds ex = advance eval_conds ex (map fst (fh ex))"

definition nextTuple ::
  "(Condition list \<Rightarrow> RmRecord \<Rightarrow> bool) \<Rightarrow> SeqScanExecutor \<Rightarrow> error + SeqScanExecutor" where
  "nextTuple eval_conds ex =
     (case scan ex of
        None \<Rightarrow> Inl (InternalError ''Scan not initialized at SeqScanExecutor'')
      | Some rs \<Rightarrow> advance eval_conds ex (if rs \<noteq> [] then tl rs else rs))"

definition is_end :: "SeqScanExecutor \<Rightarrow> bool" where
  "is_end ex \<longleftrightarrow> scan ex = None \<or> scan ex = Some []"

text \<open>\<^verbatim>\<open>Next\<close> returns the executor as it has become and the record, \<open>None\<close> for the
  null pointer.\<close>

definition Next ::
  "(Condition list \<Rightarrow> RmRecord \<Rightarrow> bool) \<Rightarrow> SeqScanExecutor \<Rightarrow>
   error + (SeqScanExecutor \<times> RmRecord option)" where
  "Next eval_conds ex =
     (case (if scan ex = None then beginTuple eval_conds ex else Inr ex) of
        Inl e \<Rightarrow> Inl e
      | Inr ex1 \<Rightarrow>
          if is_end ex1 then Inr (ex1, None)
          else (case get_record (fh ex1) (rid ex1) of
                  Inl e \<Rightarrow> Inl e
                | Inr rec \<Rightarrow> Inr (ex1, Some rec)))"

text \<open>
  The first record of the file, in scan order, that satisfies the conditions of the
  executor, if there is one.
\<close>

definition first_match ::
  "(Condition list \<Rightarrow> RmRecord \<Rightarrow> bool) \<Rightarrow> SeqScanExecutor \<Rightarrow> RmRecord option" where
  "first_match eval_conds ex =
     (case find (\<lambda>r. case map_of (fh ex) r of
                        Some rec \<Rightarrow> eval_conds (fed_conds ex) rec
                      | None \<Rightarrow> False)
             (map fst (fh ex)) of
        None \<Rightarrow> None
      | Some r \<Rightarrow> map_of (fh ex) r)"

section \<open>Example catalog and queries\<close>

definition column :: "string \<Rightarrow> string \<Rightarrow> TabCol" where
  "column t c = \<lparr>tab_name = t, col_name = c\<rparr>"

definition join_cond :: "TabCol \<Rightarrow> CompOp \<Rightarrow> TabCol \<Rightarrow> Condition" where
  "join_cond l o' r =
     \<lparr>lhs_col = l, op = o', is_rhs_val = False, rhs_col = r, rhs_val = IntValue 0\<rparr>"

definition value_cond :: "TabCol \<Rightarrow> CompOp \<Rightarrow> Value \<Rightarrow> Condition" where
  "value_cond l o' v =
     \<lparr>lhs_col = l, op = o', is_rhs_val = True, rhs_col = column [] [], rhs_val = v\<rparr>"

text \<open>A catalog of tables without indexes and without open files.\<close>

definition plain_catalog :: "(string \<times> string list) list \<Rightarrow> SmManager" where
  "plain_catalog tabs =
     \<lparr>get_table = (\<lambda>t. case map_of tabs t of
                          None \<Rightarrow> None
                        | Some cs \<Rightarrow>
                            Some \<lparr>tab_cols = map (\<lambda>c. \<lparr>col_tab_name = t, name = c\<rparr>) cs,
                                  is_index = (\<lambda>_. False)\<rparr>),
      fhs = (\<lambda>_. None)\<rparr>"

definition select_query :: "string list \<Rightarrow> TabCol list \<Rightarrow> Condition list \<Rightarrow> Query" where
  "select_query ts cs ps =
     \<lparr>parse = \<lparr>has_sort = False, order_col_name = [], orderby_dir = OrderBy_DEFAULT\<rparr>,
      tables = ts, cols = cs, conds = ps, is_select_star = False\<rparr>"

definition seq_scan :: "string \<Rightarrow> Condition list \<Rightarrow> ScanNode" where
  "seq_scan t cs = make_ScanPlan T_SeqScan t cs []"

text \<open>
  A plan is left-deep when no join node has a join node as its right child.
\<close>

fun is_join :: "Plan \<Rightarrow> bool" where
  "is_join (JoinPlan t left right cs) = True"
| "is_join p = False"

fun left_deep :: "Plan \<Rightarrow> bool" where
  "left_deep (JoinPlan t left right cs) \<longleftrightarrow> \<not> is_join right \<and> left_deep left \<and> left_deep right"
| "left_deep (FilterPlan subplan cs) \<longleftrightarrow> left_deep subplan"
| "left_deep (ProjectionPlan subplan cs) \<longleftrightarrow> left_deep subplan"
| "left_deep (SortPlan subplan c d) \<longleftrightarrow> left_deep subplan"
| "left_deep p \<longleftrightarrow> True"

text \<open>
  The shape that \<open>make_one_rel\<close> builds: the left child of a join node is a scan (or
  the null pointer) or a join of two of them, and the tree goes on in the right child.
\<close>

fun is_leaf :: "Plan \<Rightarrow> bool" where
  "is_leaf NullPlan = True"
| "is_leaf (ScanPlan x) = True"
| "is_leaf p = False"

fun small_join :: "Plan \<Rightarrow> bool" where
  "small_join (JoinPlan t left right cs) \<longleftrightarrow> is_leaf left \<and> is_leaf right"
| "small_join p \<longleftrightarrow> is_leaf p"

fun right_deep :: "Plan \<Rightarrow> bool" where
  "right_deep (JoinPlan t left right cs) \<longleftrightarrow> small_join left \<and> right_deep right"
| "right_deep p \<longleftrightarrow> is_leaf p"

text \<open>Three tables joined in a chain, and two tables without any condition.\<close>

definition chain_catalog :: SmManager where
  "chain_catalog = plain_catalog [(''a'', [''k'']), (''b'', [''k'']), (''c'', [''k''])]"

definition chain_query :: Query where
  "chain_query =
     select_query [''a'', ''b'', ''c''] [column ''a'' ''k'']
       [join_cond (column ''a'' ''k'') OP_EQ (column ''b'' ''k''),
        join_cond (column ''b'' ''k'') OP_EQ (column ''c'' ''k'')]"

definition product_query :: Query where
  "product_query = select_query [''a'', ''b''] [column ''a'' ''k''] []"

text \<open>\<^verbatim>\<open>SELECT a FROM t ORDER BY a DESC\<close>.\<close>

definition sorted_query :: Query where
  "sorted_query =
     (select_query [''t''] [column ''t'' ''a''] [])
       \<lparr>parse := \<lparr>has_sort = True, order_col_name = ''a'', orderby_dir = OrderBy_DESC\<rparr>\<rparr>"

fun is_projection :: "Plan \<Rightarrow> bool" where
  "is_projection (ProjectionPlan subplan cs) = True"
| "is_projection p = False"

text \<open>
  All conditions a plan holds anywhere: in the two lists of a scan, on a join and in
  a filter.
\<close>

fun plan_conditions :: "Plan \<Rightarrow> Condition list" where
  "plan_conditions NullPlan = []"
| "plan_conditions (ScanPlan x) = scan_conds x @ scan_fed_conds x"
| "plan_conditions (JoinPlan t left right cs) = cs @ plan_conditions left @ plan_conditions right"
| "plan_conditions (FilterPlan subplan cs) = cs @ plan_conditions subplan"
| "plan_conditions (ProjectionPlan subplan cs) = plan_conditions subplan"
| "plan_conditions (SortPlan subplan c d) = plan_conditions subplan"

text \<open>\<^verbatim>\<open>SELECT a FROM t WHERE a = 5 AND a = b\<close>, both columns of \<open>t\<close>.\<close>

definition two_predicate_query :: Query where
  "two_predicate_query =
     select_query [''t''] [column ''t'' ''a'']
       [value_cond (column ''t'' ''a'') OP_EQ (IntValue 5),
        join_cond (column ''t'' ''a'') OP_EQ (column ''t'' ''b'')]"

text \<open>
  A catalog with open files: \<open>a\<close> and \<open>b\<close> have one data page of two and of four
  records, \<open>p\<close> has nine data pages of ten records, the header of \<open>e\<close> cannot be
  read, and no other table has an open file.
\<close>

definition sized_catalog :: SmManager where
  "sized_catalog =
     (plain_catalog [])
       \<lparr>fhs := (\<lambda>t.
          if t = ''a'' then Some (Inr \<lparr>num_pages = 2, num_records_per_page = 2\<rparr>)
          else if t = ''b'' then Some (Inr \<lparr>num_pages = 2, num_records_per_page = 4\<rparr>)
          else if t = ''p'' then Some (Inr \<lparr>num_pages = 10, num_records_per_page = 10\<rparr>)
          else if t = ''e'' then Some (Inl (InternalError ''file header''))
          else None)\<rparr>"

text \<open>An executor over a file of two records whose scan has not been started.\<close>

definition fresh_executor :: SeqScanExecutor where
  "fresh_executor =
     \<lparr>fh = [(\<lparr>page_no = 1, slot_no = 0\<rparr>, ''ab''), (\<lparr>page_no = 1, slot_no = 1\<rparr>, ''cd'')],
      fed_conds = [], rid = \<lparr>page_no = 0, slot_no = 0\<rparr>, scan = None\<rparr>"

text \<open>
  The filter nodes of a plan, each as the pair of its child and its conditions, and
  the scan nodes of a plan.
\<close>

fun filter_nodes :: "Plan \<Rightarrow> (Plan \<times> Condition list) list" where
  "filter_nodes (JoinPlan t left right cs) = filter_nodes left @ filter_nodes right"
| "filter_nodes (FilterPlan subplan cs) = (subplan, cs) # filter_nodes subplan"
| "filter_nodes (ProjectionPlan subplan cs) = filter_nodes subplan"
| "filter_nodes (SortPlan subplan c d) = filter_nodes subplan"
| "filter_nodes p = []"

fun scan_nodes :: "Plan \<Rightarrow> ScanNode list" where
  "scan_nodes (ScanPlan x) = [x]"
| "scan_nodes (JoinPlan t left right cs) = scan_nodes left @ scan_nodes right"
| "scan_nodes (FilterPlan subplan cs) = scan_nodes subplan"
| "scan_nodes (ProjectionPlan subplan cs) = scan_nodes subplan"
| "scan_nodes (SortPlan subplan c d) = scan_nodes subplan"
| "scan_nodes p = []"

text \<open>
  A scan stores literals of its own table only when every stored condition with a
  literal has a column of the table of the scan on its left side. A plan is a join of
  the scans \<open>S\<close> when it has join nodes, scans of \<open>S\<close> and null pointers only.
\<close>

definition own_literals :: "ScanNode \<Rightarrow> bool" where
  "own_literals x \<longleftrightarrow>
     (\<forall>c \<in> set (scan_conds x). is_rhs_val c \<longrightarrow> tab_name (lhs_col c) = scan_tab_name x)"

fun join_of_scans :: "ScanNode set \<Rightarrow> Plan \<Rightarrow> bool" where
  "join_of_scans S NullPlan \<longleftrightarrow> True"
| "join_of_scans S (ScanPlan x) \<longleftrightarrow> x \<in> S"
| "join_of_scans S (JoinPlan t left right cs) \<longleftrightarrow> join_of_scans S left \<and> join_of_scans S right"
| "join_of_scans S p \<longleftrightarrow> False"

text \<open>
  \<^verbatim>\<open>SELECT * FROM r, s WHERE r.x = s.u AND r.y > 0 AND s.v = 7\<close> and the plan that
  \<open>make_one_rel\<close> builds for it.
\<close>

definition filtered_join_catalog :: SmManager where
  "filtered_join_catalog = plain_catalog [(''r'', [''x'', ''y'']), (''s'', [''u'', ''v''])]"

definition filtered_join_query :: Query where
  "filtered_join_query =
     select_query [''r'', ''s''] []
       [join_cond (column ''r'' ''x'') OP_EQ (column ''s'' ''u''),
        value_cond (column ''r'' ''y'') OP_GT (IntValue 0),
        value_cond (column ''s'' ''v'') OP_EQ (IntValue 7)]"

definition filtered_join_plan :: Plan where
  "filtered_join_plan =
     JoinPlan T_NestLoop
       (ScanPlan (seq_scan ''r'' [value_cond (column ''r'' ''y'') OP_GT (IntValue 0)]))
       (ScanPlan (seq_scan ''s'' [value_cond (column ''s'' ''v'') OP_EQ (IntValue 7)]))
       [join_cond (column ''r'' ''x'') OP_EQ (column ''s'' ''u'')]"

section \<open>Theorems\<close>

subsection \<open>Auxiliary facts\<close>

lemma push_conds_unchanged: "fst (push_conds c p) \<noteq> 3 \<Longrightarrow> snd (push_conds c p) = p"
  by (induction c p rule: push_conds.induct) (auto simp: Let_def split: prod.splits if_splits)

lemmas planner_defs =
  make_one_rel_def join_tree_def seed_join_def extend_join_def pop_scan_def
  cartesian_attach_def get_index_cols_def indexed_columns_def make_ScanPlan_def solved_by_def
  swap_sides_def indexable_op_def

lemmas example_defs =
  plain_catalog_def select_query_def column_def join_cond_def value_cond_def

lemmas pipeline_defs =
  generate_select_plan_def logical_optimization_def join_order_optimization_def
  physical_optimization_def apply_predicate_pushdown_def apply_projection_pushdown_def
  generate_sort_plan_def

lemma push_conds_not_null: "p \<noteq> NullPlan \<Longrightarrow> snd (push_conds c p) \<noteq> NullPlan"
  by (cases p) (auto simp: Let_def split: prod.splits)

lemma extend_join_not_null: "fst acc \<noteq> NullPlan \<Longrightarrow> fst (extend_join scans it acc) \<noteq> NullPlan"
  by (auto simp: extend_join_def Let_def push_conds_not_null split: prod.splits if_splits)

lemma foldl_extend_join_not_null:
  "fst acc \<noteq> NullPlan \<Longrightarrow> fst (foldl (\<lambda>a c. extend_join scans c a) acc cs) \<noteq> NullPlan"
  by (induction cs arbitrary: acc) (simp_all add: extend_join_not_null)

lemma join_tree_not_null: "join_tree nl smj scans cs = Inr acc \<Longrightarrow> fst acc \<noteq> NullPlan"
  by (auto simp: join_tree_def seed_join_def Let_def foldl_extend_join_not_null
      split: list.splits sum.splits prod.splits if_splits)

lemma cartesian_fold_not_null:
  "p \<noteq> NullPlan \<Longrightarrow>
   foldl (\<lambda>r i. if tbl ! i = - 1 then JoinPlan T_NestLoop (ScanPlan (scans ! i)) r [] else r)
     p js \<noteq> NullPlan"
  by (induction js arbitrary: p) simp_all

lemma cartesian_attach_not_null: "fst acc \<noteq> NullPlan \<Longrightarrow> cartesian_attach scans acc \<noteq> NullPlan"
  unfolding cartesian_attach_def by (rule cartesian_fold_not_null)

lemma make_one_rel_not_null: "make_one_rel sm nl smj q = Inr (p, q') \<Longrightarrow> p \<noteq> NullPlan"
  by (auto simp: make_one_rel_def cartesian_attach_not_null
      split: sum.splits prod.splits if_splits dest!: join_tree_not_null)

lemma make_one_rel_query:
  "make_one_rel sm nl smj q = Inr (p, q') \<Longrightarrow>
     parse q' = parse q \<and> cols q' = cols q \<and> tables q' = tables q"
  by (auto simp: make_one_rel_def split: sum.splits prod.splits if_splits)

lemma push_filters_down_not_null: "p \<noteq> NullPlan \<Longrightarrow> push_filters_down p \<noteq> NullPlan"
  by (cases p) (auto simp: Let_def)

lemma join_order_optimization_query:
  "join_order_optimization std_sort sm q = Some q' \<Longrightarrow> parse q' = parse q \<and> cols q' = cols q"
  by (auto simp: join_order_optimization_def Let_def split: if_splits option.splits)

subsection \<open>Swapping the sides of a condition\<close>

text \<open>
  Every round of the extension loop attaches the condition as it is or with its sides
  swapped by \<open>swap_sides\<close>, and so does \<open>push_conds\<close> when it attaches it.
\<close>

lemma extend_join_cases:
  "\<exists>l r. fst (extend_join scans it (root, st)) = JoinPlan T_NestLoop (JoinPlan T_NestLoop l r [it]) root []
      \<or> fst (extend_join scans it (root, st)) = JoinPlan T_NestLoop l root [it]
      \<or> fst (extend_join scans it (root, st)) = JoinPlan T_NestLoop r root [swap_sides it]
      \<or> fst (extend_join scans it (root, st)) = snd (push_conds it root)"
  by (auto simp: extend_join_def Let_def split: prod.splits if_splits)

lemma push_conds_conditions:
  "mset (plan_conditions (snd (push_conds c p))) =
     (if fst (push_conds c p) = 3
      then mset (plan_conditions p) + {#c#}
      else mset (plan_conditions p)) \<or>
   mset (plan_conditions (snd (push_conds c p))) = mset (plan_conditions p) + {#swap_sides c#}"
proof (induction c p rule: push_conds.induct)
  case (1 cond x)
  then show ?case by simp
next
  case (2 cond t left right cs)
  obtain lr l' where l: "push_conds cond left = (lr, l')" by (cases "push_conds cond left")
  obtain rr r' where r: "push_conds cond right = (rr, r')" by (cases "push_conds cond right")
  show ?case
  proof (cases "lr = 3")
    case True
    with 2(1) l show ?thesis by auto
  next
    case False
    have lu: "l' = left" using push_conds_unchanged [of cond left] l False by simp
    show ?thesis
    proof (cases "rr = 3")
      case True
      with 2(2) [OF refl l [symmetric] \<open>lr \<noteq> 3\<close>] l r \<open>lr \<noteq> 3\<close> lu show ?thesis by auto
    next
      case False
      have ru: "r' = right" using push_conds_unchanged [of cond right] r False by simp
      from l r \<open>lr \<noteq> 3\<close> False lu ru show ?thesis by (auto simp: Let_def)
    qed
  qed
qed simp_all


text \<open>
  C7. The operator mapping of the swap is an involution. Where the planner reverses a
  condition, it swaps the two column references and maps the operator with
  \<open>swap_op\<close>: in the extension loop of \<open>make_one_rel\<close> when only the table of the
  right side is new (the table of the left side is joined already or has no scan),
  and in \<open>push_conds\<close> when the left subtree holds the table of the right side
  (code 2) and the right subtree matches too (code 1 or 2).
\<close>

theorem swap_op_involution_and_use:
  "swap_op (swap_op x) = x \<and>
   (tab_name (lhs_col it) \<in> set (joined_tables st) \<or>
      scan_index (tab_name (lhs_col it)) scans 0 = None \<longrightarrow>
    tab_name (rhs_col it) \<notin> set (joined_tables st) \<longrightarrow>
    scan_index (tab_name (rhs_col it)) scans 0 = Some i \<longrightarrow>
    fst (extend_join scans it (root, st)) =
      JoinPlan T_NestLoop (ScanPlan (scans ! i)) root
        [\<lparr>lhs_col = rhs_col it, op = swap_op (op it), is_rhs_val = is_rhs_val it,
          rhs_col = lhs_col it, rhs_val = rhs_val it\<rparr>]) \<and>
   (fst (push_conds cond left) = 2 \<longrightarrow>
    fst (push_conds cond right) = 1 \<or> fst (push_conds cond right) = 2 \<longrightarrow>
    push_conds cond (JoinPlan t left right cs) =
      (3, JoinPlan t left right
           (cs @ [\<lparr>lhs_col = rhs_col cond, op = swap_op (op cond),
                   is_rhs_val = is_rhs_val cond, rhs_col = lhs_col cond,
                   rhs_val = rhs_val cond\<rparr>])))"
proof (intro conjI impI)
  show "swap_op (swap_op x) = x" by (cases x) simp_all
next
  assume "tab_name (lhs_col it) \<in> set (joined_tables st) \<or>
      scan_index (tab_name (lhs_col it)) scans 0 = None"
    "tab_name (rhs_col it) \<notin> set (joined_tables st)"
    "scan_index (tab_name (rhs_col it)) scans 0 = Some i"
  then show "fst (extend_join scans it (root, st)) =
     JoinPlan T_NestLoop (ScanPlan (scans ! i)) root
       [\<lparr>lhs_col = rhs_col it, op = swap_op (op it), is_rhs_val = is_rhs_val it,
         rhs_col = lhs_col it, rhs_val = rhs_val it\<rparr>]"
    by (auto simp: extend_join_def pop_scan_def swap_sides_def)
next
  assume a: "fst (push_conds cond left) = 2"
    "fst (push_conds cond right) = 1 \<or> fst (push_conds cond right) = 2"
  have "snd (push_conds cond left) = left"
    using a(1) by (intro push_conds_unchanged) simp
  with a(1) have l: "push_conds cond left = (2, left)" by (simp add: prod_eq_iff)
  have "snd (push_conds cond right) = right"
    using a(2) by (intro push_conds_unchanged) auto
  with a(2) have r: "push_conds cond right = (1, right) \<or> push_conds cond right = (2, right)"
    by (auto simp: prod_eq_iff)
  then show "push_conds cond (JoinPlan t left right cs) =
     (3, JoinPlan t left right
          (cs @ [\<lparr>lhs_col = rhs_col cond, op = swap_op (op cond),
                  is_rhs_val = is_rhs_val cond, rhs_col = lhs_col cond,
                  rhs_val = rhs_val cond\<rparr>]))"
    by (auto simp: l swap_sides_def)
qed

theorem swap_op_involution_and_use_witness:
  "swap_op (swap_op OP_LT) = OP_LT \<and>
   fst (extend_join [seq_scan ''t1'' [], seq_scan ''t2'' []]
          (join_cond (column ''t1'' ''y'') OP_LT (column ''t2'' ''x''))
          (ScanPlan (seq_scan ''t1'' []), \<lparr>scantbl = [1, - 1], joined_tables = [''t1'']\<rparr>)) =
     JoinPlan T_NestLoop (ScanPlan (seq_scan ''t2'' [])) (ScanPlan (seq_scan ''t1'' []))
       [join_cond (column ''t2'' ''x'') OP_GT (column ''t1'' ''y'')] \<and>
   push_conds (join_cond (column ''t1'' ''y'') OP_LE (column ''t2'' ''x''))
      (JoinPlan T_NestLoop (ScanPlan (seq_scan ''t2'' [])) (ScanPlan (seq_scan ''t1'' [])) []) =
     (3, JoinPlan T_NestLoop (ScanPlan (seq_scan ''t2'' [])) (ScanPlan (seq_scan ''t1'' []))
          [join_cond (column ''t2'' ''x'') OP_GE (column ''t1'' ''y'')])"
  using swap_op_involution_and_use [of OP_LT
     "join_cond (column ''t1'' ''y'') OP_LT (column ''t2'' ''x'')"
     "\<lparr>scantbl = [1, - 1], joined_tables = [''t1'']\<rparr>"
     "[seq_scan ''t1'' [], seq_scan ''t2'' []]" 1
     "ScanPlan (seq_scan ''t1'' [])"
     "join_cond (column ''t1'' ''y'') OP_LE (column ''t2'' ''x'')"
     "ScanPlan (seq_scan ''t2'' [])" "ScanPlan (seq_scan ''t1'' [])" T_NestLoop "[]"]
  by (simp add: seq_scan_def make_ScanPlan_def example_defs)

subsection \<open>Index matching\<close>

lemma indexable_op_all: "indexable_op x"
  by (cases x) (simp_all add: indexable_op_def)

lemma indexed_columns_empty_iff:
  "indexed_columns tab cs = [] \<longleftrightarrow>
     \<not> (\<exists>c \<in> set cs. is_rhs_val c \<and> tab_name (lhs_col c) = tab)"
proof -
  have sort_Nil: "sort xs = [] \<longleftrightarrow> xs = []" for xs :: "string list"
    using length_sort [of "\<lambda>x. x" xs] by (cases xs) auto
  show ?thesis
    by (auto simp: indexed_columns_def indexable_op_all filter_empty_conv sort_Nil)
qed

text \<open>
  C5, as stated, at a table without index and one condition on its column \<open>a\<close>:
  \<open>get_index_cols\<close> returns false and leaves the column in the list.
\<close>

theorem get_index_cols_false_nonempty:
  "get_index_cols (plain_catalog [(''t'', [''a'', ''b''])]) ''t''
     [value_cond (column ''t'' ''a'') OP_EQ (IntValue 5)] = Inr (False, [''a''])"
  by (simp add: planner_defs example_defs)

text \<open>
  C5, amended. When \<open>get_index_cols\<close> returns false, the list it leaves is the sorted
  list of the candidate columns, that is of the columns of the table that some
  condition compares with a literal; it is empty exactly when there is no such
  condition.
\<close>

theorem get_index_cols_false_candidates:
  "get_index_cols sm tab cs = Inr (False, index_col_names) \<Longrightarrow>
     index_col_names = indexed_columns tab cs \<and>
     (index_col_names = [] \<longleftrightarrow>
        \<not> (\<exists>c \<in> set cs. is_rhs_val c \<and> tab_name (lhs_col c) = tab))"
  by (auto simp: get_index_cols_def Let_def indexed_columns_empty_iff
           split: option.splits if_splits)

theorem get_index_cols_false_candidates_witness:
  "get_index_cols (plain_catalog [(''t'', [''a'', ''b''])]) ''t''
     [value_cond (column ''t'' ''b'') OP_LT (IntValue 7),
      value_cond (column ''t'' ''a'') OP_EQ (IntValue 5),
      value_cond (column ''t'' ''b'') OP_GT (IntValue 1)] = Inr (False, [''a'', ''b'']) \<and>
   [''a'', ''b''] = indexed_columns ''t''
     [value_cond (column ''t'' ''b'') OP_LT (IntValue 7),
      value_cond (column ''t'' ''a'') OP_EQ (IntValue 5),
      value_cond (column ''t'' ''b'') OP_GT (IntValue 1)]"
proof -
  have h: "get_index_cols (plain_catalog [(''t'', [''a'', ''b''])]) ''t''
     [value_cond (column ''t'' ''b'') OP_LT (IntValue 7),
      value_cond (column ''t'' ''a'') OP_EQ (IntValue 5),
      value_cond (column ''t'' ''b'') OP_GT (IntValue 1)] = Inr (False, [''a'', ''b''])"
    by (simp add: planner_defs example_defs)
  from get_index_cols_false_candidates [OF h] h show ?thesis by simp
qed

subsection \<open>Join algorithm selection\<close>

lemma seed_join_no_executor: "seed_join False False scans it st = Inl NoJoinExecutorSelected"
  by (simp add: seed_join_def split: prod.splits)

lemma make_one_rel_no_executor:
  "table_scans sm (tables q) (conds q) = Inr (scans, it # rest) \<Longrightarrow> length (tables q) \<noteq> 1 \<Longrightarrow>
     make_one_rel sm False False q = Inl NoJoinExecutorSelected"
  by (simp add: make_one_rel_def join_tree_def seed_join_no_executor)

text \<open>
  C3 at the product of two tables with both join flags off. The seed step, which alone
  tests the flags, is not reached without a remaining condition; the attachment of
  the unused table builds a nested loop join.
\<close>

theorem make_one_rel_product_flags_off:
  "make_one_rel (plain_catalog [(''a'', [''k'']), (''b'', [''k''])]) False False product_query =
     Inr (JoinPlan T_NestLoop (ScanPlan (seq_scan ''b'' [])) (ScanPlan (seq_scan ''a'' [])) [],
          product_query)"
  by (simp add: planner_defs example_defs product_query_def seq_scan_def)

subsection \<open>Shape of the join tree\<close>

text \<open>
  Every plan of \<open>make_one_rel\<close> is right-deep in the sense of \<open>right_deep\<close>: the
  seed step, every round of the extension loop and the Cartesian attachment put the
  new scans to the left and the tree built so far to the right.
\<close>

lemma is_leaf_small_join [simp]: "is_leaf p \<Longrightarrow> small_join p"
  by (cases p) simp_all

lemma is_leaf_right_deep [simp]: "is_leaf p \<Longrightarrow> right_deep p"
  by (cases p) simp_all

lemma push_conds_is_leaf: "is_leaf (snd (push_conds c p)) = is_leaf p"
  by (cases p) (auto simp: Let_def split: prod.splits)

lemma push_conds_small_join: "small_join (snd (push_conds c p)) = small_join p"
proof (cases p)
  case (JoinPlan t l r cs)
  have "is_leaf (snd (push_conds c l)) = is_leaf l" "is_leaf (snd (push_conds c r)) = is_leaf r"
    by (rule push_conds_is_leaf)+
  then show ?thesis using JoinPlan by (auto simp: Let_def split: prod.splits)
qed simp_all

lemma push_conds_right_deep: "right_deep (snd (push_conds c p)) = right_deep p"
proof (induction c p rule: push_conds.induct)
  case (2 cond t left right cs)
  obtain lr l' where l: "push_conds cond left = (lr, l')" by (cases "push_conds cond left")
  obtain rr r' where r: "push_conds cond right = (rr, r')" by (cases "push_conds cond right")
  have sl: "small_join l' = small_join left" using push_conds_small_join [of cond left] l by simp
  show ?case
  proof (cases "lr = 3")
    case True
    with l sl show ?thesis by simp
  next
    case False
    from 2(2) [OF refl l [symmetric] False] r have "right_deep r' = right_deep right" by simp
    with l r sl False show ?thesis by (auto simp: Let_def)
  qed
qed simp_all

lemma pop_scan_is_leaf: "is_leaf (fst (pop_scan st t scans))"
  by (simp add: pop_scan_def split: option.splits)

lemma extend_join_right_deep:
  "right_deep (fst acc) \<Longrightarrow> right_deep (fst (extend_join scans it acc))"
proof -
  assume a: "right_deep (fst acc)"
  obtain root st where acc: "acc = (root, st)" by (cases acc)
  have leaf: "is_leaf (fst (pop_scan s t scans))" for s t by (rule pop_scan_is_leaf)
  show ?thesis
    using a leaf [of st "tab_name (lhs_col it)"] leaf [of st "tab_name (rhs_col it)"]
      leaf [of "snd (pop_scan st (tab_name (lhs_col it)) scans)" "tab_name (rhs_col it)"]
    unfolding acc
    by (auto simp: extend_join_def Let_def push_conds_right_deep split: prod.splits if_splits)
qed

lemma foldl_extend_join_right_deep:
  "right_deep (fst acc) \<Longrightarrow> right_deep (fst (foldl (\<lambda>a c. extend_join scans c a) acc cs))"
  by (induction cs arbitrary: acc) (simp_all add: extend_join_right_deep)

lemma join_tree_right_deep: "join_tree nl smj scans cs = Inr acc \<Longrightarrow> right_deep (fst acc)"
proof -
  assume a: "join_tree nl smj scans cs = Inr acc"
  have leaf: "is_leaf (fst (pop_scan s t scans))" for s t by (rule pop_scan_is_leaf)
  show ?thesis
  proof (cases cs)
    case Nil
    with a show ?thesis by (auto simp: join_tree_def Let_def split: list.splits)
  next
    case (Cons it rest)
    let ?st = "\<lparr>scantbl = replicate (length scans) (- 1), joined_tables = replicate (length scans) []\<rparr>"
    from a Cons obtain acc0 where s: "seed_join nl smj scans it ?st = Inr acc0"
      and f: "acc = foldl (\<lambda>a c. extend_join scans c a) acc0 rest"
      by (auto simp: join_tree_def Let_def split: sum.splits)
    have "right_deep (fst acc0)"
      using s leaf [of ?st "tab_name (lhs_col it)"]
        leaf [of "snd (pop_scan ?st (tab_name (lhs_col it)) scans)" "tab_name (rhs_col it)"]
      by (auto simp: seed_join_def Let_def split: prod.splits if_splits)
    then show ?thesis unfolding f by (rule foldl_extend_join_right_deep)
  qed
qed

lemma cartesian_fold_right_deep:
  "right_deep p \<Longrightarrow>
   right_deep (foldl (\<lambda>r i. if tbl ! i = - 1 then JoinPlan T_NestLoop (ScanPlan (scans ! i)) r [] else r)
     p js)"
  by (induction js arbitrary: p) simp_all

lemma make_one_rel_right_deep: "make_one_rel sm nl smj q = Inr (p, q') \<Longrightarrow> right_deep p"
  by (auto simp: make_one_rel_def cartesian_attach_def cartesian_fold_right_deep
      split: sum.splits prod.splits if_splits dest!: join_tree_right_deep)


lemma extend_join_right_child:
  assumes "is_join root"
    and "fst (extend_join scans it (root, st)) \<noteq> snd (push_conds it root)"
  shows "\<not> left_deep (fst (extend_join scans it (root, st)))"
proof -
  from extend_join_cases [of scans it root st] assms(2) obtain l r where
    "fst (extend_join scans it (root, st)) =
       JoinPlan T_NestLoop (JoinPlan T_NestLoop l r [it]) root [] \<or>
     fst (extend_join scans it (root, st)) = JoinPlan T_NestLoop l root [it] \<or>
     fst (extend_join scans it (root, st)) = JoinPlan T_NestLoop r root [swap_sides it]"
    by blast
  with assms(1) show ?thesis by auto
qed

text \<open>
  C1 at a chain of three tables, \<open>a.k = b.k\<close> and \<open>b.k = c.k\<close>. The seed step joins
  \<open>a\<close> and \<open>b\<close>; the extension loop puts the new table \<open>c\<close> to the left and the tree
  built so far to the right. No table is left for the Cartesian attachment. The right
  child of the root is a join node.
\<close>

theorem make_one_rel_chain_right_deep:
  "make_one_rel chain_catalog True True chain_query =
     Inr (JoinPlan T_NestLoop (ScanPlan (seq_scan ''c'' []))
            (JoinPlan T_NestLoop (ScanPlan (seq_scan ''a'' [])) (ScanPlan (seq_scan ''b'' []))
               [join_cond (column ''a'' ''k'') OP_EQ (column ''b'' ''k'')])
            [join_cond (column ''c'' ''k'') OP_EQ (column ''b'' ''k'')],
          chain_query\<lparr>conds := []\<rparr>) \<and>
   map_sum id (scantbl \<circ> snd)
     (join_tree True True [seq_scan ''a'' [], seq_scan ''b'' [], seq_scan ''c'' []]
        (conds chain_query)) = Inr [1, 1, 1] \<and>
   \<not> left_deep
      (JoinPlan T_NestLoop (ScanPlan (seq_scan ''c'' []))
         (JoinPlan T_NestLoop (ScanPlan (seq_scan ''a'' [])) (ScanPlan (seq_scan ''b'' []))
            [join_cond (column ''a'' ''k'') OP_EQ (column ''b'' ''k'')])
         [join_cond (column ''c'' ''k'') OP_EQ (column ''b'' ''k'')])"
  by (simp add: planner_defs example_defs chain_query_def chain_catalog_def seq_scan_def)

subsection \<open>Sort and projection at the root\<close>

text \<open>
  C2, as stated, at \<open>SELECT a FROM t ORDER BY a DESC\<close>: the plan that
  \<open>generate_select_plan\<close> returns has the sort node at its root and the projection
  as the child of the sort node. With one table the sort routine of the join order is
  not reached; it is an insertion sort here.
\<close>

theorem generate_select_plan_sort_root:
  "generate_select_plan (sort_key snd) (plain_catalog [(''t'', [''a''])]) True True
     sorted_query =
     Some (Inr (SortPlan (ProjectionPlan (ScanPlan (seq_scan ''t'' [])) [column ''t'' ''a''])
                  (column ''t'' ''a'') True)) \<and>
   \<not> is_projection
       (SortPlan (ProjectionPlan (ScanPlan (seq_scan ''t'' [])) [column ''t'' ''a''])
          (column ''t'' ''a'') True)"
  by (simp add: pipeline_defs planner_defs example_defs sorted_query_def seq_scan_def)

text \<open>
  C2, amended. For a SELECT with ORDER BY, a plan returned by \<open>generate_select_plan\<close>
  has a sort node at its root; the child of the sort node is the projection node with
  the select list of the query, and the sort is descending exactly when the direction
  of the ORDER BY is DESC.
\<close>

theorem generate_select_plan_sort_above_projection:
  assumes "has_sort (parse q)"
    and "generate_select_plan std_sort sm nl smj q = Some (Inr p)"
  shows "\<exists>child key.
           p = SortPlan (ProjectionPlan child (cols q)) key (orderby_dir (parse q) = OrderBy_DESC)"
proof -
  from assms(2) obtain q1 where q1: "join_order_optimization std_sort sm q = Some q1"
    and ph: "physical_optimization sm nl smj q1 = Inr p"
    by (auto simp: generate_select_plan_def logical_optimization_def split: option.splits)
  from ph obtain p0 q2 where m: "make_one_rel sm nl smj q1 = Inr (p0, q2)"
    and s: "generate_sort_plan sm q2
              (apply_projection_pushdown sm (apply_predicate_pushdown p0) q2) = Inr p"
    by (auto simp: physical_optimization_def split: sum.splits prod.splits)
  have e: "parse q2 = parse q" "cols q2 = cols q"
    using make_one_rel_query [OF m] join_order_optimization_query [OF q1] by simp_all
  have "apply_predicate_pushdown p0 \<noteq> NullPlan"
    using make_one_rel_not_null [OF m]
    by (simp add: apply_predicate_pushdown_def push_filters_down_not_null)
  then obtain child where pr:
    "apply_projection_pushdown sm (apply_predicate_pushdown p0) q2 =
       ProjectionPlan child (cols q)"
    by (simp add: apply_projection_pushdown_def Let_def e)
  from s assms(1) show ?thesis
    by (auto simp: generate_sort_plan_def Let_def pr e split: sum.splits)
qed

theorem generate_select_plan_sort_above_projection_witness:
  "has_sort (parse sorted_query) \<and>
   (\<exists>child key.
      SortPlan (ProjectionPlan (ScanPlan (seq_scan ''t'' [])) [column ''t'' ''a''])
        (column ''t'' ''a'') True =
      SortPlan (ProjectionPlan child (cols sorted_query)) key
        (orderby_dir (parse sorted_query) = OrderBy_DESC))"
proof -
  have h: "has_sort (parse sorted_query)"
    by (simp add: sorted_query_def select_query_def)
  have g: "generate_select_plan (sort_key snd) (plain_catalog [(''t'', [''a''])]) True True
             sorted_query =
     Some (Inr (SortPlan (ProjectionPlan (ScanPlan (seq_scan ''t'' [])) [column ''t'' ''a''])
                  (column ''t'' ''a'') True))"
    by (simp add: pipeline_defs planner_defs example_defs sorted_query_def seq_scan_def)
  from generate_select_plan_sort_above_projection [OF h g] h show ?thesis by simp
qed

subsection \<open>Where the predicates end up\<close>

lemma push_filters_down_scan:
  "push_filters_down (ScanPlan x) = FilterPlan p cs \<Longrightarrow>
     p = ScanPlan (x\<lparr>scan_conds := [], scan_fed_conds := []\<rparr>) \<and>
     cs = filter (\<lambda>cond. is_rhs_val cond \<and> tab_name (lhs_col cond) = scan_tab_name x)
            (scan_conds x)"
  by (auto simp: Let_def split: if_splits)

text \<open>
  C4 at \<open>SELECT a FROM t WHERE a = 5 AND a = b\<close>. \<open>pop_conds\<close> gives both
  predicates to the scan of \<open>t\<close>. The pushdown moves the predicate with the literal
  into a filter and then empties both lists of the scan, so the predicate \<open>a = b\<close> is
  nowhere in the plan.
\<close>

theorem predicate_pushdown_loses_predicate:
  "map_sum id (apply_predicate_pushdown \<circ> fst)
     (make_one_rel (plain_catalog [(''t'', [''a'', ''b''])]) True True two_predicate_query) =
     Inr (FilterPlan (ScanPlan (seq_scan ''t'' []))
            [value_cond (column ''t'' ''a'') OP_EQ (IntValue 5)]) \<and>
   join_cond (column ''t'' ''a'') OP_EQ (column ''t'' ''b'') \<notin>
     set (plan_conditions
            (FilterPlan (ScanPlan (seq_scan ''t'' []))
               [value_cond (column ''t'' ''a'') OP_EQ (IntValue 5)]))"
  by (simp add: planner_defs example_defs pipeline_defs two_predicate_query_def seq_scan_def)

text \<open>
  On a join of scans that store literals of their own table only, the scan case of the
  pushdown wraps every scan that stores a literal, so the conditions that the join case
  collects afterwards hold no literal: the join case adds no filter node, and
  \<open>clear_conditions_from_plan\<close> reaches only scans that no filter node wraps.
\<close>

lemma filter_nodes_clear: "filter_nodes (clear_conditions_from_plan p) = filter_nodes p"
  by (induction p rule: clear_conditions_from_plan.induct) simp_all

lemma extract_clear: "extract_conditions_from_plan (clear_conditions_from_plan p) = []"
  by (induction p rule: clear_conditions_from_plan.induct) simp_all

lemma push_filters_down_no_literal:
  assumes "\<forall>x \<in> S. own_literals x"
  shows "join_of_scans S p \<Longrightarrow>
         \<forall>c \<in> set (extract_conditions_from_plan (push_filters_down p)). \<not> is_rhs_val c"
proof (induction p)
  case (ScanPlan x)
  then have "own_literals x" using assms by simp
  then show ?case by (auto simp: own_literals_def Let_def filter_empty_conv)
next
  case (JoinPlan t l r cs)
  then show ?case by (simp add: Let_def extract_clear)
qed simp_all

lemma join_case_never_hoists:
  assumes "\<forall>x \<in> S. own_literals x" and "join_of_scans S left" and "join_of_scans S right"
  shows "push_filters_down (JoinPlan t left right cs) =
         JoinPlan t (clear_conditions_from_plan (push_filters_down left))
           (clear_conditions_from_plan (push_filters_down right)) cs"
proof -
  have "\<forall>c \<in> set (extract_conditions_from_plan (push_filters_down left)). \<not> is_rhs_val c"
    "\<forall>c \<in> set (extract_conditions_from_plan (push_filters_down right)). \<not> is_rhs_val c"
    using assms by (simp_all add: push_filters_down_no_literal)
  then have "filter (\<lambda>cond. is_rhs_val cond \<and> P cond)
          (extract_conditions_from_plan (push_filters_down left) @
           extract_conditions_from_plan (push_filters_down right)) = []" for P
    by (auto simp: filter_empty_conv)
  then show ?thesis by (simp add: Let_def)
qed

lemma push_filters_down_filter_nodes:
  assumes "\<forall>x \<in> S. own_literals x"
  shows "join_of_scans S p \<Longrightarrow> (child, cs) \<in> set (filter_nodes (push_filters_down p)) \<Longrightarrow>
     \<exists>x \<in> set (scan_nodes p).
        child = ScanPlan (x\<lparr>scan_conds := [], scan_fed_conds := []\<rparr>) \<and>
        cs = filter (\<lambda>cond. is_rhs_val cond \<and> tab_name (lhs_col cond) = scan_tab_name x)
               (scan_conds x) \<and>
        cs \<noteq> []"
proof (induction p)
  case (ScanPlan x)
  then show ?case by (auto simp: Let_def split: if_splits)
next
  case (JoinPlan t l r cs')
  from JoinPlan.prems have j: "join_of_scans S l" "join_of_scans S r" by simp_all
  from JoinPlan.prems(2) have
    "(child, cs) \<in> set (filter_nodes (push_filters_down l)) \<or>
     (child, cs) \<in> set (filter_nodes (push_filters_down r))"
    unfolding join_case_never_hoists [OF assms j] by (simp add: filter_nodes_clear)
  then show ?case using JoinPlan.IH j by auto
qed simp_all

text \<open>
  \<open>make_one_rel\<close> builds such a join: \<open>pop_conds\<close> gives a condition with a literal
  to the scan of the table of its left column, unless its right column names that table
  as well.
\<close>

lemma pop_conds_sets:
  "pop_conds cs t = (solved, rest) \<Longrightarrow>
     set solved \<subseteq> set cs \<and> set rest \<subseteq> set cs \<and> (\<forall>c \<in> set solved. solved_by t c)"
  by (induction cs arbitrary: solved rest) (auto simp: Let_def split: prod.splits if_splits)

lemma table_scans_own_literals:
  "table_scans sm ts cs = Inr (scans, rest) \<Longrightarrow>
   \<forall>c \<in> set cs. is_rhs_val c \<longrightarrow> tab_name (rhs_col c) \<noteq> tab_name (lhs_col c) \<Longrightarrow>
   (\<forall>x \<in> set scans. own_literals x) \<and> length scans = length ts"
proof (induction ts arbitrary: cs scans rest)
  case Nil
  then show ?case by simp
next
  case (Cons t ts)
  obtain cur rst where pc: "pop_conds cs t = (cur, rst)" by (cases "pop_conds cs t")
  from Cons.prems(1) pc obtain ie icn scans' where
    g: "get_index_cols sm t cur = Inr (ie, icn)"
    and r: "table_scans sm ts rst = Inr (scans', rest)"
    and s: "scans = (if ie = False then make_ScanPlan T_SeqScan t cur []
                     else make_ScanPlan T_IndexScan t cur icn) # scans'"
    by (auto simp: Let_def split: sum.splits prod.splits)
  from pop_conds_sets [OF pc] have sub: "set cur \<subseteq> set cs" "set rst \<subseteq> set cs"
    and sol: "\<forall>c \<in> set cur. solved_by t c" by simp_all
  have "\<forall>c \<in> set rst. is_rhs_val c \<longrightarrow> tab_name (rhs_col c) \<noteq> tab_name (lhs_col c)"
    using Cons.prems(2) sub(2) by blast
  from Cons.IH [OF r this] have ih: "\<forall>x \<in> set scans'. own_literals x" "length scans' = length ts"
    by simp_all
  have "\<forall>c \<in> set cur. is_rhs_val c \<longrightarrow> tab_name (lhs_col c) = t"
  proof (intro ballI impI)
    fix c assume c: "c \<in> set cur" "is_rhs_val c"
    then have "tab_name (rhs_col c) \<noteq> tab_name (lhs_col c)" using sub(1) Cons.prems(2) by blast
    moreover have "solved_by t c" using sol c(1) by blast
    ultimately show "tab_name (lhs_col c) = t" by (auto simp: solved_by_def)
  qed
  then have "own_literals (make_ScanPlan tg t cur ic)" for tg ic
    by (simp add: own_literals_def make_ScanPlan_def)
  with ih show ?case unfolding s by simp
qed

lemma scan_index_bound: "scan_index t xs k = Some i \<Longrightarrow> k \<le> i \<and> i < k + length xs"
  by (induction xs arbitrary: k) (fastforce split: if_splits)+

lemma pop_scan_join_of_scans: "join_of_scans (set scans) (fst (pop_scan st t scans))"
  using scan_index_bound [of t scans 0]
  by (auto simp: pop_scan_def split: option.splits)

lemma push_conds_join_of_scans:
  "join_of_scans S (snd (push_conds c p)) = join_of_scans S p"
proof (induction c p rule: push_conds.induct)
  case (2 cond t left right cs)
  obtain lr l' where l: "push_conds cond left = (lr, l')" by (cases "push_conds cond left")
  obtain rr r' where r: "push_conds cond right = (rr, r')" by (cases "push_conds cond right")
  have sl: "join_of_scans S l' = join_of_scans S left" using 2(1) l by simp
  show ?case
  proof (cases "lr = 3")
    case True
    with l sl show ?thesis by simp
  next
    case False
    from 2(2) [OF refl l [symmetric] False] r
    have "join_of_scans S r' = join_of_scans S right" by simp
    with l r sl False show ?thesis by (auto simp: Let_def)
  qed
qed simp_all

lemma extend_join_join_of_scans:
  assumes "join_of_scans (set scans) (fst acc)"
  shows "join_of_scans (set scans) (fst (extend_join scans it acc))"
proof -
  obtain root st where acc: "acc = (root, st)" by (cases acc)
  have leaf: "join_of_scans (set scans) (fst (pop_scan s t scans))" for s t
    by (rule pop_scan_join_of_scans)
  show ?thesis
    using assms leaf [of st "tab_name (lhs_col it)"] leaf [of st "tab_name (rhs_col it)"]
      leaf [of "snd (pop_scan st (tab_name (lhs_col it)) scans)" "tab_name (rhs_col it)"]
    unfolding acc
    by (auto simp: extend_join_def Let_def push_conds_join_of_scans split: prod.splits if_splits)
qed

lemma foldl_extend_join_join_of_scans:
  "join_of_scans (set scans) (fst acc) \<Longrightarrow>
   join_of_scans (set scans) (fst (foldl (\<lambda>a c. extend_join scans c a) acc cs))"
  by (induction cs arbitrary: acc) (simp_all add: extend_join_join_of_scans)

lemma join_tree_join_of_scans:
  assumes a: "join_tree nl smj scans cs = Inr acc"
  shows "join_of_scans (set scans) (fst acc)"
proof -
  have leaf: "join_of_scans (set scans) (fst (pop_scan s t scans))" for s t
    by (rule pop_scan_join_of_scans)
  show ?thesis
  proof (cases cs)
    case Nil
    with a show ?thesis by (auto simp: join_tree_def Let_def split: list.splits)
  next
    case (Cons it rest)
    let ?st = "\<lparr>scantbl = replicate (length scans) (- 1), joined_tables = replicate (length scans) []\<rparr>"
    from a Cons obtain acc0 where s: "seed_join nl smj scans it ?st = Inr acc0"
      and f: "acc = foldl (\<lambda>a c. extend_join scans c a) acc0 rest"
      by (auto simp: join_tree_def Let_def split: sum.splits)
    have "join_of_scans (set scans) (fst acc0)"
      using s leaf [of ?st "tab_name (lhs_col it)"]
        leaf [of "snd (pop_scan ?st (tab_name (lhs_col it)) scans)" "tab_name (rhs_col it)"]
      by (auto simp: seed_join_def Let_def split: prod.splits if_splits)
    then show ?thesis unfolding f by (rule foldl_extend_join_join_of_scans)
  qed
qed

lemma cartesian_fold_join_of_scans:
  "join_of_scans (set scans) p \<Longrightarrow> \<forall>i \<in> set js. i < length scans \<Longrightarrow>
   join_of_scans (set scans)
     (foldl (\<lambda>r i. if tbl ! i = - 1 then JoinPlan T_NestLoop (ScanPlan (scans ! i)) r [] else r)
        p js)"
  by (induction js arbitrary: p) simp_all

lemma make_one_rel_join_of_scans:
  assumes "make_one_rel sm nl smj q = Inr (p, q')"
    and "\<forall>c \<in> set (conds q). is_rhs_val c \<longrightarrow> tab_name (rhs_col c) \<noteq> tab_name (lhs_col c)"
  shows "\<exists>S. (\<forall>x \<in> S. own_literals x) \<and> join_of_scans S p"
proof -
  from assms(1) obtain scans rest where
    ts: "table_scans sm (tables q) (conds q) = Inr (scans, rest)"
    by (auto simp: make_one_rel_def split: sum.splits prod.splits)
  from table_scans_own_literals [OF ts assms(2)]
  have own: "\<forall>x \<in> set scans. own_literals x" and len: "length scans = length (tables q)"
    by simp_all
  have "join_of_scans (set scans) p"
  proof (cases "length (tables q) = 1")
    case True
    with len have "scans \<noteq> []" by auto
    with assms(1) ts True show ?thesis by (auto simp: make_one_rel_def)
  next
    case False
    with assms(1) ts obtain acc where jt: "join_tree nl smj scans rest = Inr acc"
      and p: "p = cartesian_attach scans acc"
      by (auto simp: make_one_rel_def split: sum.splits)
    from join_tree_join_of_scans [OF jt] show ?thesis
      unfolding p cartesian_attach_def by (rule cartesian_fold_join_of_scans) simp
  qed
  with own show ?thesis by blast
qed

text \<open>
  C6. Take a query in which no condition with a literal has, as its right column, a
  column of the table of its left column (the parser leaves the right column of such a
  condition empty), and the plan \<open>p\<close> that \<open>make_one_rel\<close> builds for it. Every
  filter node of \<open>apply_predicate_pushdown p\<close> sits directly on a scan node; that scan
  node is a scan node \<open>x\<close> of \<open>p\<close> with \<open>conds\<close> and \<open>fed_conds\<close> both emptied
  and every other field as it was, and the conditions of the filter node are the
  conditions with a literal that \<open>x\<close> stored, of which there is at least one.
\<close>

theorem predicate_pushdown_clears_hoisted_scans:
  assumes "\<forall>c \<in> set (conds q). is_rhs_val c \<longrightarrow> tab_name (rhs_col c) \<noteq> tab_name (lhs_col c)"
    and "make_one_rel sm nl smj q = Inr (p, q')"
    and "(child, cs) \<in> set (filter_nodes (apply_predicate_pushdown p))"
  shows "\<exists>x \<in> set (scan_nodes p).
           child = ScanPlan (x\<lparr>scan_conds := [], scan_fed_conds := []\<rparr>) \<and>
           cs = filter (\<lambda>cond. is_rhs_val cond \<and> tab_name (lhs_col cond) = scan_tab_name x)
                  (scan_conds x) \<and>
           cs \<noteq> []"
proof -
  from make_one_rel_join_of_scans [OF assms(2,1)] obtain S where
    S: "\<forall>x \<in> S. own_literals x" "join_of_scans S p" by blast
  from assms(3) have "(child, cs) \<in> set (filter_nodes (push_filters_down p))"
    by (simp add: apply_predicate_pushdown_def split: if_splits)
  with S show ?thesis by (rule push_filters_down_filter_nodes)
qed

theorem predicate_pushdown_clears_hoisted_scans_witness:
  "make_one_rel filtered_join_catalog True True filtered_join_query =
     Inr (filtered_join_plan, filtered_join_query\<lparr>conds := []\<rparr>) \<and>
   filter_nodes (apply_predicate_pushdown filtered_join_plan) =
     [(ScanPlan (seq_scan ''r'' []), [value_cond (column ''r'' ''y'') OP_GT (IntValue 0)]),
      (ScanPlan (seq_scan ''s'' []), [value_cond (column ''s'' ''v'') OP_EQ (IntValue 7)])] \<and>
   (\<exists>x \<in> set (scan_nodes filtered_join_plan).
      ScanPlan (seq_scan ''s'' []) = ScanPlan (x\<lparr>scan_conds := [], scan_fed_conds := []\<rparr>) \<and>
      [value_cond (column ''s'' ''v'') OP_EQ (IntValue 7)] =
        filter (\<lambda>cond. is_rhs_val cond \<and> tab_name (lhs_col cond) = scan_tab_name x)
          (scan_conds x) \<and>
      [value_cond (column ''s'' ''v'') OP_EQ (IntValue 7)] \<noteq> [])"
proof -
  have h: "\<forall>c \<in> set (conds filtered_join_query).
             is_rhs_val c \<longrightarrow> tab_name (rhs_col c) \<noteq> tab_name (lhs_col c)"
    by (simp add: filtered_join_query_def example_defs)
  have m: "make_one_rel filtered_join_catalog True True filtered_join_query =
             Inr (filtered_join_plan, filtered_join_query\<lparr>conds := []\<rparr>)"
    by (simp add: planner_defs example_defs filtered_join_query_def filtered_join_catalog_def
          filtered_join_plan_def seq_scan_def)
  have f: "filter_nodes (apply_predicate_pushdown filtered_join_plan) =
     [(ScanPlan (seq_scan ''r'' []), [value_cond (column ''r'' ''y'') OP_GT (IntValue 0)]),
      (ScanPlan (seq_scan ''s'' []), [value_cond (column ''s'' ''v'') OP_EQ (IntValue 7)])]"
    by (simp add: apply_predicate_pushdown_def filtered_join_plan_def example_defs seq_scan_def
          make_ScanPlan_def)
  have i: "(ScanPlan (seq_scan ''s'' []), [value_cond (column ''s'' ''v'') OP_EQ (IntValue 7)])
             \<in> set (filter_nodes (apply_predicate_pushdown filtered_join_plan))"
    unfolding f by simp
  from predicate_pushdown_clears_hoisted_scans [OF h m i] m f show ?thesis by simp
qed

text \<open>
  A plan that \<open>make_one_rel\<close> does not build: a join of the scans of \<open>a\<close> and \<open>b\<close>
  where the scan of \<open>a\<close> stores the condition \<open>b.x = 5\<close>. There the join case of
  the pushdown moves the condition into a filter above the scan of \<open>b\<close> and clears the
  scan of \<open>a\<close> with \<open>clear_conditions_from_plan\<close>, which leaves \<open>fed_conds\<close> as it
  was.
\<close>

lemma join_pushdown_keeps_fed_conds:
  "apply_predicate_pushdown
     (JoinPlan T_NestLoop
        (ScanPlan (seq_scan ''a'' [value_cond (column ''b'' ''x'') OP_EQ (IntValue 5)]))
        (ScanPlan (seq_scan ''b'' [])) []) =
   JoinPlan T_NestLoop
     (ScanPlan \<lparr>tag = T_SeqScan, scan_tab_name = ''a'', scan_conds = [],
                scan_fed_conds = [value_cond (column ''b'' ''x'') OP_EQ (IntValue 5)],
                scan_index_col_names = []\<rparr>)
     (FilterPlan (ScanPlan (seq_scan ''b'' []))
        [value_cond (column ''b'' ''x'') OP_EQ (IntValue 5)]) []"
  by (simp add: pipeline_defs example_defs seq_scan_def make_ScanPlan_def)

subsection \<open>Cardinality estimate\<close>

lemma bit_length_0 [simp]: "bit_length 0 = 0"
  by (simp add: bit_length.simps)


lemma bit_length_bounds: "n > 0 \<Longrightarrow> 2 ^ (bit_length n - 1) \<le> n \<and> n < 2 ^ bit_length n"
proof (induction n rule: bit_length.induct)
  case (1 n)
  show ?case
  proof (cases "n div 2 = 0")
    case True
    with 1(2) have "n = 1" by (cases n) auto
    then show ?thesis by (subst (1 2) bit_length.simps) simp
  next
    case False
    with 1 have ih: "2 ^ (bit_length (n div 2) - 1) \<le> n div 2" "n div 2 < 2 ^ bit_length (n div 2)"
      by auto
    have bl: "bit_length n = Suc (bit_length (n div 2))" using 1(2) by (subst bit_length.simps) simp
    have pos: "bit_length (n div 2) > 0" using False by (subst bit_length.simps) simp
    then obtain k where k: "bit_length (n div 2) = Suc k" by (cases "bit_length (n div 2)") auto
    from ih show ?thesis unfolding bl k by (auto simp: )
  qed
qed

lemma bit_length_le: "n < 2 ^ k \<Longrightarrow> bit_length n \<le> k"
proof (cases "n = 0")
  case True then show ?thesis by simp
next
  case False
  assume a: "n < 2 ^ k"
  from False bit_length_bounds [of n] have "2 ^ (bit_length n - 1) \<le> n" by simp
  then have "(2::nat) ^ (bit_length n - 1) < 2 ^ k" using a by (rule le_less_trans)
  then have "bit_length n - 1 < k" by (rule power_less_imp_less_exp [rotated]) simp
  then show ?thesis by simp
qed

lemma round53_small: "n < 2 ^ 53 \<Longrightarrow> round53 n = n"
  using bit_length_le [of n 53] by (simp add: round53_def Let_def del: bit_length.simps)

lemma round53_error: "round53 n \<le> n + n div 2 ^ 53 \<and> n \<le> round53 n + n div 2 ^ 53"
proof (cases "bit_length n \<le> 53")
  case True
  then show ?thesis by (simp add: round53_def Let_def del: bit_length.simps)
next
  case False
  define s where "s = bit_length n - 53"
  define A where "A = (n div 2 ^ s) * 2 ^ s"
  define r where "r = n mod 2 ^ s"
  define T where "T = (2::nat) ^ s"
  define half where "half = (2::nat) ^ (s - 1)"
  define d where "d = n div 2 ^ 53"
  from False have s: "s \<ge> 1" "bit_length n = s + 53" by (simp_all add: s_def)
  then have npos: "n > 0" by (cases "n = 0") auto
  have n: "n = A + r" unfolding A_def r_def by (rule div_mult_mod_eq [symmetric])
  have rlt: "r < T" by (simp add: r_def T_def)
  have two: "T = 2 * half" using s(1) by (cases s) (simp_all add: half_def T_def)
  from bit_length_bounds [OF npos] s have "2 ^ (s + 52) \<le> n" by (simp add: add.commute)
  moreover have "(2::nat) ^ (s + 52) = 2 ^ 53 * half"
    using s(1) by (cases s) (simp_all add: half_def power_add)
  ultimately have "2 ^ 53 * half \<le> n" by simp
  then have "(2 ^ 53 * half) div 2 ^ 53 \<le> n div 2 ^ 53" by (rule div_le_mono)
  then have h: "half \<le> d" by (simp add: d_def)
  have R: "round53 n =
      (if r > half \<or> (r = half \<and> odd (n div 2 ^ s)) then n div 2 ^ s + 1 else n div 2 ^ s) * 2 ^ s"
    using False by (simp add: round53_def Let_def s_def r_def half_def del: bit_length.simps)
  show ?thesis
  proof (cases "r > half \<or> (r = half \<and> odd (n div 2 ^ s))")
    case True
    then have "round53 n = A + T" using R by (simp add: A_def T_def algebra_simps)
    moreover from True have "half \<le> r" by auto
    ultimately show ?thesis using n two h rlt unfolding d_def [symmetric] by linarith
  next
    case False
    then have "round53 n = A" using R by (simp add: A_def)
    moreover from False have "r \<le> half" by auto
    ultimately show ?thesis using n two h rlt unfolding d_def [symmetric] by linarith
  qed
qed

lemma times_0_7_bounds:
  assumes "n < 2 ^ 49"
  shows "times_0_7 n \<le> 7 * n div 10 \<and> 7 * n div 10 \<le> times_0_7 n + 1"
proof -
  define P where "P = (2::nat) ^ 53"
  define N where "N = n * 6305039478318694"
  define R where "R = round53 N"
  define q where "q = R div P"
  define d where "d = N div P"
  have Ppos: "P > 0" by (simp add: P_def)
  have n11: "11 * n < P" using assms by (simp add: P_def)
  have rn: "round53 n = n" using assms by (intro round53_small) simp
  have t: "times_0_7 n = q" by (simp add: times_0_7_def rn q_def R_def N_def P_def)
  have e: "R \<le> N + d" "N \<le> R + d"
    using round53_error [of N] by (simp_all add: R_def d_def P_def)
  have M: "10 * (6305039478318694::nat) + 4 = 7 * P" by (simp add: P_def)
  have N10: "10 * N + 4 * n = 7 * n * P"
  proof -
    have "10 * N + 4 * n = n * (10 * 6305039478318694 + 4)"
      unfolding N_def by (simp only: distrib_left mult.assoc mult.commute mult.left_commute)
    then show ?thesis by (simp only: M mult.assoc mult.commute mult.left_commute)
  qed
  have dP: "d * P \<le> N" unfolding d_def by simp
  have d10: "10 * d \<le> 7 * n"
  proof -
    have "10 * d * P \<le> 10 * N" using dP by simp
    also have "\<dots> \<le> 7 * n * P" using N10 by linarith
    finally show ?thesis using Ppos by simp
  qed
  have q1: "q * P \<le> R" unfolding q_def by simp
  have q2: "R < q * P + P"
  proof -
    have "R = q * P + R mod P" unfolding q_def by (rule div_mult_mod_eq [symmetric])
    moreover have "R mod P < P" using Ppos by simp
    ultimately show ?thesis by linarith
  qed
  have up: "10 * q \<le> 7 * n"
  proof -
    have "10 * (q * P) \<le> 7 * n * P + 3 * n" using q1 e(1) d10 N10 by linarith
    also have "\<dots> < 7 * n * P + P" using n11 by linarith
    finally have "(10 * q) * P < (7 * n + 1) * P" by (simp add: algebra_simps)
    then have "10 * q < 7 * n + 1" using Ppos by (simp only: mult_less_cancel2)
    then show ?thesis by simp
  qed
  have lo: "7 * n \<le> 10 * (q + 1)"
  proof -
    have "10 * N \<le> 10 * R + 7 * n" using e(2) d10 by linarith
    moreover have "10 * R < 10 * (q * P + P)" using q2 by simp
    ultimately have "10 * N + 4 * n < 10 * (q * P + P) + 11 * n" by linarith
    then have "7 * n * P < 10 * (q * P + P) + 11 * n" by (simp only: N10)
    also have "\<dots> < 10 * (q * P + P) + P" using n11 by linarith
    finally have "(7 * n) * P < (10 * (q + 1) + 1) * P" by (simp add: algebra_simps)
    then have "7 * n < 10 * (q + 1) + 1" using Ppos by (simp only: mult_less_cancel2)
    then show ?thesis by simp
  qed
  have "10 * q div 10 \<le> 7 * n div 10" using up by (rule div_le_mono)
  moreover have "7 * n div 10 \<le> 10 * (q + 1) div 10" using lo by (rule div_le_mono)
  ultimately show ?thesis unfolding t by simp
qed


lemma times_0_7_90: "times_0_7 90 = 62"
  by (simp add: times_0_7_def round53_def Let_def bit_length.simps)



subsection \<open>Join order\<close>

lemma greedy_loop_done:
  "\<not> card used < length stats \<Longrightarrow> greedy_loop stats cs srt used result = Some result"
  by (subst greedy_loop.simps) simp

lemma greedy_loop_step:
  "card used < length stats \<Longrightarrow> greedy_loop stats cs srt used result =
     greedy_loop stats cs srt (fst (greedy_round stats cs srt (used, result)))
        (snd (greedy_round stats cs srt (used, result)))"
  by (subst greedy_loop.simps) (simp split: prod.splits)

lemmas greedy_defs = greedy_join_order_optimization_def greedy_loop_done greedy_loop_step
  greedy_round_def best_step_def has_join_condition_def join_graph_def cardinality_map_def
  SIZE_MAX_def Let_def

lemma times_0_7_2: "times_0_7 2 = 1"
  by (simp add: times_0_7_def round53_def Let_def bit_length.simps)

lemma times_0_7_4: "times_0_7 4 = 2"
  by (simp add: times_0_7_def round53_def Let_def bit_length.simps)

lemma sized_catalog_estimates:
  "estimate_table_cardinality sized_catalog ''a'' = 1"
  "estimate_table_cardinality sized_catalog ''b'' = 2"
  "estimate_table_cardinality sized_catalog ''c'' = 1000"
  "estimate_table_cardinality sized_catalog ''d'' = 1000"
  by (simp_all add: estimate_table_cardinality_def sized_catalog_def times_0_7_2 times_0_7_4)

lemma best_step_cong:
  assumes "set stats' = set stats" "cardinality_map stats' = cardinality_map stats"
    "join_graph cs' = join_graph cs"
  shows "best_step stats' cs' used = best_step stats cs used"
proof (intro ext)
  fix acc stat
  show "best_step stats' cs' used acc stat = best_step stats cs used acc stat"
    by (simp only: best_step_def has_join_condition_def assms)
qed

lemma best_step_commute:
  assumes "fst x \<noteq> fst y \<longrightarrow> cardinality_map stats (fst x) \<noteq> cardinality_map stats (fst y)"
  shows "best_step stats cs used (best_step stats cs used acc x) y =
         best_step stats cs used (best_step stats cs used acc y) x"
proof -
  define E where "E t \<longleftrightarrow>
    t \<notin> used \<and>
    \<not> (\<not> has_join_condition cs used t \<and>
       (\<exists>other_stat \<in> set stats.
           \<not> (fst other_stat \<in> used \<or> fst other_stat = t) \<and>
           has_join_condition cs used (fst other_stat)))" for t
  define c where "c = cardinality_map stats"
  have alt: "best_step stats cs used a s =
      (if E (fst s) \<and> c (fst s) < snd a then (fst s, c (fst s)) else a)" for a s
    unfolding best_step_def Let_def E_def c_def by (simp only: if_not_P if_P split: if_splits) auto
  from assms have "fst x = fst y \<or> c (fst x) \<noteq> c (fst y)" by (auto simp: c_def)
  then show ?thesis unfolding alt by (auto simp: prod_eq_iff)
qed

lemma foldl_best_step_perm:
  assumes "mset stats' = mset stats"
    and "\<And>x y. x \<in> set stats \<Longrightarrow> y \<in> set stats \<Longrightarrow> fst x \<noteq> fst y \<Longrightarrow>
           cardinality_map stats0 (fst x) \<noteq> cardinality_map stats0 (fst y)"
  shows "foldl (best_step stats0 cs used) init stats' = foldl (best_step stats0 cs used) init stats"
proof -
  let ?f = "\<lambda>x s. best_step stats0 cs used s x"
  have "fold ?f stats = fold ?f stats'"
  proof (rule fold_multiset_equiv)
    fix x y assume xy: "x \<in> set stats" "y \<in> set stats"
    have "fst y \<noteq> fst x \<longrightarrow>
            cardinality_map stats0 (fst y) \<noteq> cardinality_map stats0 (fst x)"
      using assms(2) [OF xy(2) xy(1)] by blast
    then have "best_step stats0 cs used (best_step stats0 cs used acc y) x =
               best_step stats0 cs used (best_step stats0 cs used acc x) y" for acc
      by (rule best_step_commute)
    then show "?f x \<circ> ?f y = ?f y \<circ> ?f x" by (simp add: fun_eq_iff)
  next
    show "mset stats = mset stats'" using assms(1) by simp
  qed
  then show ?thesis by (simp add: foldl_conv_fold)
qed

lemma foldl_best_step_invariant:
  "fst acc = [] \<or> fst acc \<notin> used \<and> fst acc \<in> fst ` set xs0 \<Longrightarrow> set xs \<subseteq> set xs0 \<Longrightarrow>
   fst (foldl (best_step stats cs used) acc xs) = [] \<or>
   fst (foldl (best_step stats cs used) acc xs) \<notin> used \<and>
   fst (foldl (best_step stats cs used) acc xs) \<in> fst ` set xs0"
proof (induction xs arbitrary: acc)
  case Nil
  then show ?case by simp
next
  case (Cons x xs)
  have "fst (best_step stats cs used acc x) = [] \<or>
        fst (best_step stats cs used acc x) \<notin> used \<and>
        fst (best_step stats cs used acc x) \<in> fst ` set xs0"
    using Cons.prems by (auto simp: best_step_def Let_def)
  moreover have "set xs \<subseteq> set xs0" using Cons.prems by simp
  ultimately show ?case using Cons.IH by simp
qed

lemma greedy_round_progress:
  assumes "fst ` set stats = S" "fst ` set srt = S" "used \<subseteq> S" "card used < card S" "finite S"
  shows "\<exists>t. t \<in> S \<and> t \<notin> used \<and>
           greedy_round stats cs srt (used, result) = (insert t used, result @ [t])"
proof -
  let ?best = "fst (foldl (best_step stats cs used) ([], SIZE_MAX) stats)"
  show ?thesis
  proof (cases "?best = []")
    case False
    from foldl_best_step_invariant [of "([], SIZE_MAX)" used stats stats stats cs] False
    have "?best \<notin> used \<and> ?best \<in> S" using assms(1) by auto
    with False show ?thesis by (auto simp: greedy_round_def Let_def)
  next
    case True
    from assms(3,4) have "S - used \<noteq> {}" by (metis Diff_eq_empty_iff less_irrefl subset_antisym)
    then obtain t where t: "t \<in> S" "t \<notin> used" by auto
    with assms(2) obtain st where "st \<in> set srt" "fst st = t" by auto
    with t have "\<exists>x \<in> set srt. fst x \<notin> used" by auto
    then obtain st' where f: "find (\<lambda>stat. fst stat \<notin> used) srt = Some st'"
      by (cases "find (\<lambda>stat. fst stat \<notin> used) srt") (auto simp: find_None_iff)
    then have "fst st' \<notin> used" "st' \<in> set srt"
      by (auto simp: find_Some_iff)
    with assms(2) have "fst st' \<in> S" by auto
    with True f \<open>fst st' \<notin> used\<close> show ?thesis by (auto simp: greedy_round_def Let_def)
  qed
qed

lemma greedy_loop_perm:
  assumes "fst ` set stats = S" "fst ` set srt = S" "finite S" "length stats = card S"
    "length stats' = length stats"
    and round_eq: "\<And>used result. greedy_round stats' cs' srt (used, result) =
                     greedy_round stats cs srt (used, result)"
  shows "used \<subseteq> S \<Longrightarrow>
    \<exists>ord. greedy_loop stats cs srt used result = Some ord \<and>
          greedy_loop stats' cs' srt used result = Some ord"
proof (induction "card S - card used" arbitrary: used result rule: less_induct)
  case less
  show ?case
  proof (cases "card used < length stats")
    case False
    then show ?thesis using assms(5) by (simp add: greedy_loop_done)
  next
    case True
    then have c: "card used < card S" using assms(4) by simp
    from greedy_round_progress [OF assms(1,2) less.prems c assms(3), of cs result]
    obtain t where t: "t \<in> S" "t \<notin> used"
      "greedy_round stats cs srt (used, result) = (insert t used, result @ [t])" by blast
    have fin: "finite used" using less.prems assms(3) by (rule finite_subset)
    have "card (insert t used) = Suc (card used)" using t(2) fin by simp
    then have m: "card S - card (insert t used) < card S - card used" using c by simp
    have sub: "insert t used \<subseteq> S" using t(1) less.prems by simp
    from less.hyps [OF m sub, of "result @ [t]"]
    obtain ord where "greedy_loop stats cs srt (insert t used) (result @ [t]) = Some ord"
      "greedy_loop stats' cs' srt (insert t used) (result @ [t]) = Some ord" by blast
    moreover have "card used < length stats'" using True assms(5) by simp
    ultimately show ?thesis using True t(3) round_eq [of used result]
      by (simp add: greedy_loop_step)
  qed
qed


lemma cardinality_map_stats:
  "cardinality_map (map (\<lambda>t. (t, f t)) ts) t = (if t \<in> set ts then f t else 0)"
proof -
  have "map_of (rev (map (\<lambda>t. (t, f t)) ts)) = (Some \<circ> f) |` set (rev ts)"
    unfolding rev_map by (rule map_of_map_restrict)
  then show ?thesis by (simp add: cardinality_map_def restrict_map_def)
qed

lemma sort_key_sorts_by_cardinality: "sorts_by_cardinality (sort_key snd)"
  by (simp add: sorts_by_cardinality_def)

lemma sort_key_rev_sorts_by_cardinality: "sorts_by_cardinality (sort_key snd \<circ> rev)"
  by (simp add: sorts_by_cardinality_def)

text \<open>
  A sorted rearrangement starts with the entries that are strictly smaller than all
  others, whatever it does with equal ones.
\<close>

lemma sorted_stats_first:
  assumes "sorted (map snd (p # r))" and "mset (p # r) = mset (x # rest)"
    and "\<forall>z \<in> set rest. snd x < snd z"
  shows "p = x \<and> mset r = mset rest"
proof -
  have "p \<in> set (x # rest)" using assms(2) by (metis list.set_intros(1) mset_eq_setD)
  moreover have "x \<in> set (p # r)" using assms(2) by (metis list.set_intros(1) mset_eq_setD)
  then have "snd p \<le> snd x" using assms(1) by auto
  ultimately have "p = x" using assms(3) by auto
  then show ?thesis using assms(2) by simp
qed

lemma sorted_stats_first_two:
  assumes "sorts_by_cardinality std_sort" and "snd x < snd y"
    and "\<forall>z \<in> set rest. snd y < snd z"
  shows "std_sort (x # y # rest) ! 0 = x \<and> std_sort (x # y # rest) ! 1 = y"
proof -
  have s: "sorted (map snd (std_sort (x # y # rest)))"
    and m: "mset (std_sort (x # y # rest)) = mset (x # y # rest)"
    using assms(1) by (simp_all add: sorts_by_cardinality_def)
  from m have "length (std_sort (x # y # rest)) = Suc (Suc (length rest))"
    by (metis length_Cons mset_eq_length)
  then obtain p q r where e: "std_sort (x # y # rest) = p # q # r"
    by (metis length_Suc_conv)
  have "\<forall>z \<in> set (y # rest). snd x < snd z" using assms(2,3) by auto
  from sorted_stats_first [OF s [unfolded e] m [unfolded e] this]
  have px: "p = x" and m2: "mset (q # r) = mset (y # rest)" by simp_all
  have "sorted (map snd (q # r))" using s unfolding e by simp
  from sorted_stats_first [OF this m2 assms(3)] have "q = y" by simp
  with px show ?thesis by (simp add: e)
qed

text \<open>
  Four tables without conditions, where \<open>a\<close> and \<open>b\<close> are the two smallest and
  \<open>c\<close> and \<open>d\<close> both have the default cardinality 1000. Whatever the sort routine
  does with the two equal entries, the output lists \<open>c\<close> and \<open>d\<close> as the input does:
  the inner loop walks the statistics in input order and takes a table only when it is
  strictly cheaper than the best so far.
\<close>

lemma join_order_tie_any_sort:
  assumes "sorts_by_cardinality std_sort"
  shows "map_option tables
     (join_order_optimization std_sort sized_catalog
        (select_query [''a'', ''b'', ''c'', ''d''] [] [])) =
     Some [''a'', ''b'', ''c'', ''d''] \<and>
   map_option tables
     (join_order_optimization std_sort sized_catalog
        (select_query [''a'', ''b'', ''d'', ''c''] [] [])) =
     Some [''a'', ''b'', ''d'', ''c'']"
proof -
  have 1: "std_sort [(''a'', 1), (''b'', 2), (''c'', 1000), (''d'', 1000)] ! 0 = (''a'', 1) \<and>
           std_sort [(''a'', 1), (''b'', 2), (''c'', 1000), (''d'', 1000)] ! 1 = (''b'', 2)"
    by (rule sorted_stats_first_two [OF assms]) simp_all
  have 2: "std_sort [(''a'', 1), (''b'', 2), (''d'', 1000), (''c'', 1000)] ! 0 = (''a'', 1) \<and>
           std_sort [(''a'', 1), (''b'', 2), (''d'', 1000), (''c'', 1000)] ! 1 = (''b'', 2)"
    by (rule sorted_stats_first_two [OF assms]) simp_all
  from 1 2 show ?thesis
    by (simp add: join_order_optimization_def select_query_def sized_catalog_estimates
          greedy_defs)
qed

text \<open>
  C8, as stated, at four tables without conditions, where \<open>a\<close> and \<open>b\<close> are the two
  smallest and \<open>c\<close> and \<open>d\<close> both have the default cardinality 1000: the two input
  orders agree on cardinalities and edges, and the outputs differ. On four entries the
  sort routine is taken to be an insertion sort; by \<open>join_order_tie_any_sort\<close> every
  other sort routine gives the same two outputs.
\<close>

theorem join_order_depends_on_input_order:
  "map_option tables
     (join_order_optimization (sort_key snd) sized_catalog
        (select_query [''a'', ''b'', ''c'', ''d''] [] [])) =
     Some [''a'', ''b'', ''c'', ''d''] \<and>
   map_option tables
     (join_order_optimization (sort_key snd) sized_catalog
        (select_query [''a'', ''b'', ''d'', ''c''] [] [])) =
     Some [''a'', ''b'', ''d'', ''c'']"
  by (simp add: join_order_optimization_def select_query_def sized_catalog_estimates greedy_defs)

text \<open>
  C8, amended. For a query with at least three tables whose names are distinct and
  whose estimated cardinalities are pairwise distinct, \<open>join_order_optimization\<close>
  returns, and the table order it produces is the same for every input order of the
  tables, every condition list with the same join graph and every sort routine.
\<close>

theorem join_order_independent_of_input_order:
  assumes s: "sorts_by_cardinality std_sort" and s': "sorts_by_cardinality std_sort'"
    and d: "distinct (tables q)"
    and p: "mset (tables q') = mset (tables q)"
    and i: "inj_on (estimate_table_cardinality sm) (set (tables q))"
    and l: "3 \<le> length (tables q)"
    and g: "join_graph (conds q') = join_graph (conds q)"
  shows "\<exists>ord. map_option tables (join_order_optimization std_sort sm q) = Some ord \<and>
               map_option tables (join_order_optimization std_sort' sm q') = Some ord"
proof -
  define e where "e = estimate_table_cardinality sm"
  define stats where "stats = map (\<lambda>t. (t, e t)) (tables q)"
  define stats' where "stats' = map (\<lambda>t. (t, e t)) (tables q')"
  define srt where "srt = std_sort stats"
  define S where "S = set (tables q)"
  have srt_sorted: "sorted (map snd srt)" and srt_mset: "mset srt = mset stats"
    using s by (simp_all add: sorts_by_cardinality_def srt_def)
  have srt_set: "set srt = set stats" using srt_mset by (rule mset_eq_setD)
  have srt_length: "length srt = length stats" using srt_mset by (rule mset_eq_length)
  have set_eq: "set (tables q') = S" using p unfolding S_def by (rule mset_eq_setD)
  have len_eq: "length (tables q') = length (tables q)" using p by (rule mset_eq_length)
  have ms: "mset stats' = mset stats" unfolding stats_def stats'_def using p by simp
  have set_stats: "set stats = (\<lambda>t. (t, e t)) ` S" "set stats' = (\<lambda>t. (t, e t)) ` S"
    unfolding stats_def stats'_def using set_eq by (simp_all add: S_def)
  have inj: "inj_on e S" using i by (simp add: e_def S_def)
  have inj_snd: "inj_on snd (set stats)"
    unfolding set_stats using inj by (auto simp: inj_on_def)
  have dist_snd: "distinct (map snd stats)"
    unfolding stats_def using d inj by (simp add: distinct_map comp_def S_def)
  have srt'_sorted: "sorted (map snd (std_sort' stats'))"
    and srt'_mset: "mset (std_sort' stats') = mset stats"
    using s' ms by (simp_all add: sorts_by_cardinality_def)
  have srt_eq: "std_sort' stats' = srt"
  proof (rule map_sorted_distinct_set_unique [of snd])
    show "set (std_sort' stats') = set srt"
      using srt'_mset srt_set by (metis mset_eq_setD)
    then show "inj_on snd (set (std_sort' stats') \<union> set srt)"
      using inj_snd srt_set by simp
    show "sorted (map snd (std_sort' stats'))" by (rule srt'_sorted)
    show "sorted (map snd srt)" by (rule srt_sorted)
    have "mset (map snd (std_sort' stats')) = mset (map snd stats)"
      using srt'_mset by (metis mset_map)
    then show "distinct (map snd (std_sort' stats'))"
      using dist_snd by (metis mset_eq_imp_distinct_iff)
    have "mset (map snd srt) = mset (map snd stats)" using srt_mset by (metis mset_map)
    then show "distinct (map snd srt)" using dist_snd by (metis mset_eq_imp_distinct_iff)
  qed
  have cm: "cardinality_map stats t = (if t \<in> S then e t else 0)" for t
    unfolding stats_def S_def by (rule cardinality_map_stats)
  have cm': "cardinality_map stats' = cardinality_map stats"
    unfolding stats_def stats'_def by (rule ext) (simp add: cardinality_map_stats set_eq S_def [symmetric])
  have bs: "best_step stats' (conds q') used = best_step stats (conds q) used" for used
    using set_stats cm' g by (intro best_step_cong) simp_all
  have fold_eq: "foldl (best_step stats (conds q) used) init stats' =
                 foldl (best_step stats (conds q) used) init stats" for used init
  proof (rule foldl_best_step_perm [OF ms])
    fix x y assume "x \<in> set stats" "y \<in> set stats" "fst x \<noteq> fst y"
    then show "cardinality_map stats (fst x) \<noteq> cardinality_map stats (fst y)"
      using inj unfolding set_stats by (auto simp: cm inj_on_def)
  qed
  have round_eq: "greedy_round stats' (conds q') srt (used, result) =
                  greedy_round stats (conds q) srt (used, result)" for used result
    by (simp add: greedy_round_def bs fold_eq)
  have fst_stats: "fst ` set stats = S" unfolding set_stats by (simp add: image_image)
  have fst_srt: "fst ` set srt = S" using fst_stats by (simp add: srt_set)
  have fin: "finite S" by (simp add: S_def)
  have len: "length stats = card S" unfolding stats_def S_def using d by (simp add: distinct_card)
  have len': "length stats' = length stats" unfolding stats_def stats'_def using len_eq by simp
  have len3: "3 \<le> length srt" using l by (simp add: srt_length stats_def)
  then have "0 < length srt" "1 < length srt" by linarith+
  then have "srt ! 0 \<in> set srt" "srt ! 1 \<in> set srt" by (simp_all only: nth_mem)
  then have init: "{fst (srt ! 0), fst (srt ! 1)} \<subseteq> S" using fst_srt by auto
  from greedy_loop_perm [OF fst_stats fst_srt fin len len' round_eq init]
  obtain ord where o:
    "greedy_loop stats (conds q) srt {fst (srt ! 0), fst (srt ! 1)} [fst (srt ! 0), fst (srt ! 1)] = Some ord"
    "greedy_loop stats' (conds q') srt {fst (srt ! 0), fst (srt ! 1)} [fst (srt ! 0), fst (srt ! 1)] = Some ord"
    by blast
  have ls: "\<not> length stats \<le> 2" "\<not> length stats' \<le> 2"
    using l len' by (simp_all add: stats_def)
  have lt: "\<not> length (tables q) \<le> 2" "\<not> length (tables q') \<le> 2"
    using l len_eq by simp_all
  have "greedy_join_order_optimization std_sort stats (conds q) = Some ord"
    using o(1) ls(1) by (simp add: greedy_join_order_optimization_def srt_def Let_def)
  then have g1: "greedy_join_order_optimization std_sort
      (map (\<lambda>table_name. (table_name, estimate_table_cardinality sm table_name)) (tables q))
      (conds q) = Some ord"
    by (simp add: stats_def e_def)
  have "greedy_join_order_optimization std_sort' stats' (conds q') = Some ord"
    using o(2) ls(2) by (simp add: greedy_join_order_optimization_def srt_eq Let_def)
  then have g2: "greedy_join_order_optimization std_sort'
      (map (\<lambda>table_name. (table_name, estimate_table_cardinality sm table_name)) (tables q'))
      (conds q') = Some ord"
    by (simp add: stats'_def e_def)
  have "map_option tables (join_order_optimization std_sort sm q) = Some ord"
    using lt(1) g1 by (simp add: join_order_optimization_def Let_def)
  moreover have "map_option tables (join_order_optimization std_sort' sm q') = Some ord"
    using lt(2) g2 by (simp add: join_order_optimization_def Let_def)
  ultimately show ?thesis by blast
qed

theorem join_order_independent_of_input_order_witness:
  "sorts_by_cardinality (sort_key snd) \<and>
   sorts_by_cardinality (sort_key snd \<circ> rev) \<and>
   distinct [''a'', ''b'', ''p''] \<and>
   mset [''p'', ''a'', ''b''] = mset [''a'', ''b'', ''p''] \<and>
   inj_on (estimate_table_cardinality sized_catalog) (set [''a'', ''b'', ''p'']) \<and>
   map_option tables
     (join_order_optimization (sort_key snd) sized_catalog
        (select_query [''a'', ''b'', ''p''] []
           [join_cond (column ''a'' ''k'') OP_EQ (column ''p'' ''k'')])) =
     Some [''a'', ''b'', ''p''] \<and>
   map_option tables
     (join_order_optimization (sort_key snd \<circ> rev) sized_catalog
        (select_query [''p'', ''a'', ''b''] []
           [join_cond (column ''p'' ''k'') OP_LT (column ''a'' ''k'')])) =
     Some [''a'', ''b'', ''p'']"
proof -
  let ?q = "select_query [''a'', ''b'', ''p''] []
              [join_cond (column ''a'' ''k'') OP_EQ (column ''p'' ''k'')]"
  let ?q' = "select_query [''p'', ''a'', ''b''] []
               [join_cond (column ''p'' ''k'') OP_LT (column ''a'' ''k'')]"
  have ep: "estimate_table_cardinality sized_catalog ''p'' = 62"
    by (simp add: estimate_table_cardinality_def sized_catalog_def times_0_7_90)
  have s: "sorts_by_cardinality (sort_key snd)" by (rule sort_key_sorts_by_cardinality)
  have s': "sorts_by_cardinality (sort_key snd \<circ> rev)"
    by (rule sort_key_rev_sorts_by_cardinality)
  have d: "distinct (tables ?q)" by (simp add: select_query_def)
  have p: "mset (tables ?q') = mset (tables ?q)" by (simp add: select_query_def)
  have i: "inj_on (estimate_table_cardinality sized_catalog) (set (tables ?q))"
    by (simp add: select_query_def sized_catalog_estimates ep)
  have l: "3 \<le> length (tables ?q)" by (simp add: select_query_def)
  have g: "join_graph (conds ?q') = join_graph (conds ?q)"
    by (rule ext) (auto simp: join_graph_def select_query_def join_cond_def column_def)
  have r: "map_option tables (join_order_optimization (sort_key snd) sized_catalog ?q) =
             Some [''a'', ''b'', ''p'']"
    by (simp add: join_order_optimization_def select_query_def sized_catalog_estimates ep
          greedy_defs join_cond_def column_def)
  from join_order_independent_of_input_order [OF s s' d p i l g] r s s' d p i
  show ?thesis by (auto simp: select_query_def)
qed

subsection \<open>Sequential scan executor\<close>

lemma advance_spec:
  "set rs \<subseteq> fst ` set file \<Longrightarrow> fh ex = file \<Longrightarrow> fed_conds ex = cs \<Longrightarrow>
   \<exists>ex'. advance ev ex rs = Inr ex' \<and> fh ex' = file \<and> fed_conds ex' = cs \<and>
     (case find (\<lambda>r. case map_of file r of Some rec \<Rightarrow> ev cs rec | None \<Rightarrow> False) rs of
        None \<Rightarrow> scan ex' = Some []
      | Some r \<Rightarrow> rid ex' = r \<and> (\<exists>rest. scan ex' = Some (r # rest)))"
proof (induction rs arbitrary: ex)
  case Nil
  then show ?case by simp
next
  case (Cons r rs)
  from Cons.prems obtain rec where rec: "map_of file r = Some rec"
    by (cases "map_of file r") (auto simp: map_of_eq_None_iff)
  show ?case
  proof (cases "ev cs rec")
    case True
    then show ?thesis using rec Cons.prems by (simp add: get_record_def)
  next
    case False
    have "set rs \<subseteq> fst ` set file" "fh (ex\<lparr>rid := r\<rparr>) = file"
      "fed_conds (ex\<lparr>rid := r\<rparr>) = cs"
      using Cons.prems by simp_all
    from Cons.IH [OF this] False rec Cons.prems show ?thesis by (simp add: get_record_def)
  qed
qed

lemma first_match_satisfies:
  "first_match ev ex = Some rec \<Longrightarrow> ev (fed_conds ex) rec \<and> rec \<in> snd ` set (fh ex)"
  by (auto simp: first_match_def find_Some_iff split: option.splits
           dest!: map_of_SomeD intro: rev_image_eqI)

lemma first_match_none:
  "first_match ev ex = None \<longleftrightarrow>
     (\<forall>r \<in> fst ` set (fh ex). \<forall>rec. map_of (fh ex) r = Some rec \<longrightarrow> \<not> ev (fed_conds ex) rec)"
proof -
  let ?P = "\<lambda>r. case map_of (fh ex) r of Some rec \<Rightarrow> ev (fed_conds ex) rec | None \<Rightarrow> False"
  have "first_match ev ex = None \<longleftrightarrow> find ?P (map fst (fh ex)) = None"
  proof (cases "find ?P (map fst (fh ex))")
    case None
    then show ?thesis by (simp add: first_match_def)
  next
    case (Some r)
    then have "?P r" by (auto simp: find_Some_iff)
    then obtain rec where "map_of (fh ex) r = Some rec" by (auto split: option.splits)
    with Some show ?thesis by (simp add: first_match_def)
  qed
  also have "\<dots> \<longleftrightarrow> (\<forall>r \<in> fst ` set (fh ex). \<not> ?P r)"
    by (auto simp: find_None_iff)
  also have "\<dots> \<longleftrightarrow>
     (\<forall>r \<in> fst ` set (fh ex). \<forall>rec. map_of (fh ex) r = Some rec \<longrightarrow> \<not> ev (fed_conds ex) rec)"
    by (auto split: option.splits)
  finally show ?thesis .
qed

text \<open>
  C10. On an executor whose scan has not been started, \<open>Next\<close> starts the scan as
  \<open>beginTuple\<close> does and returns the first record that satisfies the conditions, or
  the null pointer when there is none; it does not throw. \<open>nextTuple\<close> on such an
  executor throws \<open>InternalError\<close>.
\<close>

theorem Next_starts_scan:
  "scan ex = None \<Longrightarrow>
     (\<exists>ex'. beginTuple ev ex = Inr ex' \<and> scan ex' \<noteq> None \<and>
            Next ev ex = Inr (ex', first_match ev ex)) \<and>
     nextTuple ev ex = Inl (InternalError ''Scan not initialized at SeqScanExecutor'')"
proof
  assume n: "scan ex = None"
  let ?P = "\<lambda>r. case map_of (fh ex) r of Some rec \<Rightarrow> ev (fed_conds ex) rec | None \<Rightarrow> False"
  from advance_spec [of "map fst (fh ex)" "fh ex" ex "fed_conds ex" ev]
  obtain ex' where b: "beginTuple ev ex = Inr ex'" and f: "fh ex' = fh ex"
    and c: "case find ?P (map fst (fh ex)) of None \<Rightarrow> scan ex' = Some []
            | Some r \<Rightarrow> rid ex' = r \<and> (\<exists>rest. scan ex' = Some (r # rest))"
    by (auto simp: beginTuple_def)
  have s: "scan ex' \<noteq> None" using c by (auto split: option.splits)
  have "Next ev ex = Inr (ex', first_match ev ex)"
  proof (cases "find ?P (map fst (fh ex))")
    case None
    with c n b show ?thesis by (simp add: Next_def is_end_def first_match_def)
  next
    case (Some r)
    with c obtain rest where r: "rid ex' = r" "scan ex' = Some (r # rest)" by auto
    from Some have "?P r" by (auto simp: find_Some_iff)
    then obtain rec where "map_of (fh ex) r = Some rec" by (auto split: option.splits)
    with Some r n b f show ?thesis
      by (simp add: Next_def is_end_def first_match_def get_record_def)
  qed
  with b s show "\<exists>ex'. beginTuple ev ex = Inr ex' \<and> scan ex' \<noteq> None \<and>
            Next ev ex = Inr (ex', first_match ev ex)" by blast
next
  assume "scan ex = None"
  then show "nextTuple ev ex = Inl (InternalError ''Scan not initialized at SeqScanExecutor'')"
    by (simp add: nextTuple_def)
qed

theorem Next_starts_scan_witness:
  "scan fresh_executor = None \<and>
   Next (\<lambda>cs rec. rec = ''cd'') fresh_executor =
     Inr (fresh_executor\<lparr>rid := \<lparr>page_no = 1, slot_no = 1\<rparr>,
                           scan := Some [\<lparr>page_no = 1, slot_no = 1\<rparr>]\<rparr>, Some ''cd'') \<and>
   first_match (\<lambda>cs rec. rec = ''cd'') fresh_executor = Some ''cd'' \<and>
   nextTuple (\<lambda>cs rec. rec = ''cd'') fresh_executor =
     Inl (InternalError ''Scan not initialized at SeqScanExecutor'')"
proof -
  have h: "scan fresh_executor = None" by (simp add: fresh_executor_def)
  have b: "beginTuple (\<lambda>cs rec. rec = ''cd'') fresh_executor =
     Inr (fresh_executor\<lparr>rid := \<lparr>page_no = 1, slot_no = 1\<rparr>,
                           scan := Some [\<lparr>page_no = 1, slot_no = 1\<rparr>]\<rparr>)"
    by (simp add: beginTuple_def fresh_executor_def get_record_def)
  have m: "first_match (\<lambda>cs rec. rec = ''cd'') fresh_executor = Some ''cd''"
    by (simp add: first_match_def fresh_executor_def)
  from Next_starts_scan [OF h, of "\<lambda>cs rec. rec = ''cd''"] h b m show ?thesis by auto
qed

end
